theory Spec2Isabelle
  imports Complex_Main "HOL-Library.Word" "HOL-Library.Char_ord" "HOL-Library.List_Lexorder"
    "HOL-Library.Multiset" "HOL-Library.AList"
begin

section \<open>Resources (pkg/core/domain.go, pkg/core/dummy.go)\<close>

text \<open>
  A \<open>Hashkey\<close> is Go's \<open>uint64\<close>.  A \<open>time.Time\<close> is an instant counted in nanoseconds
  and a \<open>time.Duration\<close> is the \<open>int64\<close> number of nanoseconds between two instants;
  \<open>Time.Sub\<close> saturates at the ends of \<open>int64\<close>.  The clock reading \<open>time.Now().UTC()\<close>
  is a parameter \<open>now\<close> of every operation that reads it.
\<close>

type_synonym Hashkey = "64 word"
type_synonym time = int
type_synonym duration = int

definition maxDuration :: duration where
  "maxDuration = 2 ^ 63 - 1"

definition minDuration :: duration where
  "minDuration = - (2 ^ 63)"

definition time_Sub :: "time \<Rightarrow> time \<Rightarrow> duration" where
  "time_Sub t u =
     (let d = t - u in
      if d > maxDuration then maxDuration else if d < minDuration then minDuration else d)"

definition StateUntested :: int where "StateUntested = 0"
definition StateFunctional :: int where "StateFunctional = 1"
definition StateDysfunctional :: int where "StateDysfunctional = 2"

definition SpeedUntested :: int where "SpeedUntested = 0"
definition SpeedAccepted :: int where "SpeedAccepted = 1"
definition SpeedRejected :: int where "SpeedRejected = 2"

definition ResourceUnchanged :: int where "ResourceUnchanged = 0"
definition ResourceIsNew :: int where "ResourceIsNew = 1"
definition ResourceChanged :: int where "ResourceChanged = 2"
definition ResourceIsGone :: int where "ResourceIsGone = 3"

text \<open>
  \<open>ResourceTest\<close>: the \<open>Ratio\<close> field is a \<open>*float64\<close>; \<open>None\<close> is the nil pointer.  The
  ratios come out of a JSON document, so they are finite, and on finite values the
  comparisons of \<open>float64\<close> are the comparisons of the numbers they denote.
\<close>

record ResourceTest =
  State :: int
  Speed :: int
  Ratio :: "real option"
  LastTested :: time
  LastPassed :: time
  Error :: string

text \<open>
  \<open>Resource\<close> is an interface whose implementations are all pointers to structs, so a
  resource is a reference into a heap of resource objects.  An object carries what the
  methods of the interface return.  \<open>TestResult()\<close> returns a \<open>*ResourceTest\<close> that may
  be nil.  \<open>SetLastPassed\<close> has two implementations: the one of \<open>ResourceBase\<close>, which
  every bridge, transport and download link embeds, writes the field; the one of \<open>Dummy\<close>
  does nothing.
\<close>

datatype ResourceImpl = Base | Dummy

record ResourceObj =
  Impl :: ResourceImpl
  RType :: string
  UniqueId :: Hashkey
  ObjectId :: Hashkey
  RelationIds :: "string list"
  Distribution :: string
  ExpiryTime :: duration
  Test :: "ResourceTest option"
  BridgeLine :: string

type_synonym Resource = nat
type_synonym heap = "Resource \<Rightarrow> ResourceObj"

datatype panic = NilDereference

datatype error =
  ErrAlreadyPresent | ErrEmpty | ErrNotFound | ErrNoResourceType | ErrQueueEmpty
  | ErrAlreadyExists | ErrNoInterval | ErrEmptyStencil

definition Uid :: "heap \<Rightarrow> Resource \<Rightarrow> Hashkey" where
  "Uid hp r = UniqueId (hp r)"

definition Oid :: "heap \<Rightarrow> Resource \<Rightarrow> Hashkey" where
  "Oid hp r = ObjectId (hp r)"

definition Expiry :: "heap \<Rightarrow> Resource \<Rightarrow> duration" where
  "Expiry hp r = ExpiryTime (hp r)"

definition TestResult :: "heap \<Rightarrow> Resource \<Rightarrow> ResourceTest option" where
  "TestResult hp r = Test (hp r)"

definition RelationIdentifiers :: "heap \<Rightarrow> Resource \<Rightarrow> string list" where
  "RelationIdentifiers hp r = RelationIds (hp r)"

definition Distributor :: "heap \<Rightarrow> Resource \<Rightarrow> string" where
  "Distributor hp r = Distribution (hp r)"

definition Type :: "heap \<Rightarrow> Resource \<Rightarrow> string" where
  "Type hp r = RType (hp r)"

definition SetLastPassed :: "heap \<Rightarrow> Resource \<Rightarrow> time \<Rightarrow> panic + heap" where
  "SetLastPassed hp r lptime =
     (case Impl (hp r) of
        Dummy \<Rightarrow> Inr hp
      | Base \<Rightarrow>
          (case Test (hp r) of
             None \<Rightarrow> Inl NilDereference
           | Some t \<Rightarrow> Inr (hp(r := (hp r)\<lparr>Test := Some (t\<lparr>LastPassed := lptime\<rparr>)\<rparr>))))"

section \<open>Hashring (package core)\<close>

record hashnode =
  hashkey :: Hashkey
  elem :: Resource
  lastUpdate :: time

text \<open>
  Of the \<open>Hashring\<close> struct the model keeps the slice of nodes; the persistence handle and
  the lock are left out, and every method is taken as one atomic step.
\<close>

record Hashring =
  hashnodes :: "hashnode list"

definition NewHashnode :: "time \<Rightarrow> Hashkey \<Rightarrow> Resource \<Rightarrow> hashnode" where
  "NewHashnode now k r = \<lparr>hashkey = k, elem = r, lastUpdate = now\<rparr>"

definition NewHashring :: Hashring where
  "NewHashring = \<lparr>hashnodes = []\<rparr>"

definition Len :: "Hashring \<Rightarrow> nat" where
  "Len h = length (hashnodes h)"

text \<open>
  \<open>sort.Search(n, f)\<close> of Go's standard library, which \<open>getIndex\<close> calls: a binary search
  for the least index in \<open>[0, n)\<close> at which \<open>f\<close> holds, \<open>n\<close> when there is none.
\<close>

function Search_loop :: "(nat \<Rightarrow> bool) \<Rightarrow> nat \<Rightarrow> nat \<Rightarrow> nat" where
  "Search_loop f i j =
     (if i < j then
        (let h = (i + j) div 2 in
         if \<not> f h then Search_loop f (h + 1) j else Search_loop f i h)
      else i)"
  by pat_completeness auto
termination
  by (relation "measure (\<lambda>(f, i, j). j - i)") auto

definition Search :: "nat \<Rightarrow> (nat \<Rightarrow> bool) \<Rightarrow> nat" where
  "Search n f = Search_loop f 0 n"

text \<open>
  \<open>getIndex\<close> returns an index together with an error value; the index is \<open>-1\<close> on the empty
  ring and the index of the next element when the key is not found.
\<close>

definition getIndex :: "hashnode list \<Rightarrow> Hashkey \<Rightarrow> int \<times> error option" where
  "getIndex ns k =
     (if length ns = 0 then (- 1, Some ErrEmpty)
      else
        (let i = Search (length ns) (\<lambda>i. hashkey (ns ! i) \<ge> k);
             i = (if i \<ge> length ns then 0 else i)
         in if i < length ns \<and> hashkey (ns ! i) = k then (int i, None)
            else (int i, Some ErrNotFound)))"

text \<open>
  \<open>sort.Sort(h)\<close> orders the nodes by \<open>Less\<close>, that is by hash key.  Go's sort is not
  stable, so nodes with equal keys may come out in any order; the rings the
  operations build never hold two nodes with one key, and there every sort gives the one
  order computed here.
\<close>

definition sort_nodes :: "hashnode list \<Rightarrow> hashnode list" where
  "sort_nodes ns = sort_key hashkey ns"

text \<open>
  \<open>maybeTestResource\<close> changes neither the ring nor a resource: all it does is start
  \<open>r.Test()\<close> on a goroutine of its own, or not.  The function gives the resource whose
  test is started; \<open>Add\<close> and \<open>AddOrUpdate\<close> below keep the ring and the heap only.
\<close>

definition maybeTestResource :: "time \<Rightarrow> heap \<Rightarrow> hashnode list \<Rightarrow> Resource \<Rightarrow> Resource option" where
  "maybeTestResource now hp ns r =
     (case getIndex ns (Uid hp r) of
        (i, None) \<Rightarrow>
          (let oldR = elem (ns ! nat i) in
           if Oid hp oldR = Oid hp r then
             (case TestResult hp oldR of
                None \<Rightarrow> Some oldR
              | Some rTest \<Rightarrow>
                  if State rTest \<noteq> StateUntested \<and> Speed rTest \<noteq> SpeedUntested
                     \<and> time_Sub now (LastTested rTest) < Expiry hp oldR
                     \<and> State rTest = StateFunctional \<and> Speed rTest = SpeedAccepted
                  then None else Some oldR)
           else Some r)
      | (i, Some e) \<Rightarrow> Some r)"

definition Add :: "time \<Rightarrow> heap \<Rightarrow> Hashring \<Rightarrow> Resource \<Rightarrow> Hashring \<times> error option" where
  "Add now hp h r =
     (case getIndex (hashnodes h) (Uid hp r) of
        (i, None) \<Rightarrow>
          (h\<lparr>hashnodes := (hashnodes h)[nat i := (hashnodes h ! nat i)\<lparr>lastUpdate := now\<rparr>]\<rparr>,
           Some ErrAlreadyPresent)
      | (i, Some e) \<Rightarrow>
          (h\<lparr>hashnodes := sort_nodes (hashnodes h @ [NewHashnode now (Uid hp r) r])\<rparr>, None))"

text \<open>
  \<open>AddOrUpdate\<close> reads the test result of the stored element through a pointer that may be
  nil, and calls \<open>SetLastPassed\<close> on its argument \<open>r\<close>: both can panic.  A panic leaves
  the ring as the statements before it made it, so the function returns the heap and the
  ring in every case, and beside them the event or the panic.  The function reads the
  clock twice when the UID is present: \<open>now\<close> is the reading that goes into \<open>lastUpdate\<close> (or
  into the new node), \<open>later\<close> the reading passed to \<open>SetLastPassed\<close>.
\<close>

definition AddOrUpdate :: "time \<Rightarrow> time \<Rightarrow> heap \<Rightarrow> Hashring \<Rightarrow> Resource \<Rightarrow> heap \<times> Hashring \<times> (panic + int)" where
  "AddOrUpdate now later hp h r =
     (case getIndex (hashnodes h) (Uid hp r) of
        (i, None) \<Rightarrow>
          (let n1 = (hashnodes h ! nat i)\<lparr>lastUpdate := now\<rparr>;
               changed = (Oid hp (elem n1) \<noteq> Oid hp r);
               n2 = (if changed then n1\<lparr>elem := r\<rparr> else n1);
               event = (if changed then ResourceChanged else ResourceUnchanged);
               h' = h\<lparr>hashnodes := (hashnodes h)[nat i := n2]\<rparr>
           in case TestResult hp (elem n2) of
                None \<Rightarrow> (hp, h', Inl NilDereference)
              | Some t \<Rightarrow>
                  if State t = StateDysfunctional \<or> Speed t = SpeedRejected
                  then (hp, h', Inr ResourceIsGone)
                  else if State t = StateFunctional \<and> Speed t = SpeedAccepted
                  then (case SetLastPassed hp r later of
                          Inl p \<Rightarrow> (hp, h', Inl p)
                        | Inr hp' \<Rightarrow> (hp', h', Inr event))
                  else (hp, h', Inr event))
      | (i, Some e) \<Rightarrow>
          (hp, h\<lparr>hashnodes := sort_nodes (hashnodes h @ [NewHashnode now (Uid hp r) r])\<rparr>,
           Inr ResourceIsNew))"

text \<open>
  \<open>remove\<close> builds \<open>append(h.hashnodes[:i], h.hashnodes[i+1:]...)\<close>.  The left part has the
  capacity of the whole slice, so the append copies the right part down inside the one
  backing array and the new slice is one shorter: the cells from \<open>len - 1\<close> on keep what
  they held.  \<open>remove_in\<close> works on the backing array \<open>arr\<close> and the length \<open>len\<close> of the slice.
\<close>

definition remove_in :: "heap \<Rightarrow> hashnode list \<Rightarrow> nat \<Rightarrow> Resource \<Rightarrow> (hashnode list \<times> nat) \<times> error option" where
  "remove_in hp arr len r =
     (case getIndex (take len arr) (Uid hp r) of
        (i, Some e) \<Rightarrow> ((arr, len), Some e)
      | (i, None) \<Rightarrow>
          ((take (nat i) arr @ drop (nat i + 1) (take len arr) @ drop (len - 1) arr, len - 1),
           None))"

definition remove :: "heap \<Rightarrow> Hashring \<Rightarrow> Resource \<Rightarrow> Hashring \<times> error option" where
  "remove hp h r =
     (case remove_in hp (hashnodes h) (length (hashnodes h)) r of
        ((arr, len), err) \<Rightarrow> (h\<lparr>hashnodes := take len arr\<rparr>, err))"

definition Remove :: "heap \<Rightarrow> Hashring \<Rightarrow> Resource \<Rightarrow> Hashring \<times> error option" where
  "Remove hp h r = remove hp h r"

text \<open>
  \<open>GetMany\<close>: \<open>num\<close> is a Go \<open>int\<close> and may be negative; the loop runs \<open>j\<close> from \<open>i\<close> up to
  \<open>num + i - 1\<close>.
\<close>

definition GetMany :: "Hashring \<Rightarrow> Hashkey \<Rightarrow> int \<Rightarrow> error + Resource list" where
  "GetMany h k num =
     (if Len h = 0 then Inl ErrEmpty
      else
        (let num = (if num \<ge> int (Len h) then int (Len h) else num)
         in case getIndex (hashnodes h) k of
              (i, err) \<Rightarrow>
                (case (if i = - 1 then err else None) of
                   Some e \<Rightarrow> Inl e
                 | None \<Rightarrow>
                     Inr (map (\<lambda>j. elem (hashnodes h ! (nat j mod Len h))) [i..num + i - 1]))))"

text \<open>
  \<open>Prune\<close> ranges over \<open>h.hashnodes\<close> and calls \<open>remove\<close> inside the loop.  Go evaluates
  the range expression once: the loop visits the indices below the length the slice had
  at the start and reads, at each index, what the backing array holds then, while
  \<open>remove\<close> shifts the array under it.  The loop state is the backing array, the current
  length of \<open>h.hashnodes\<close> and the resources pruned so far.
\<close>

definition Prune_step :: "time \<Rightarrow> heap \<Rightarrow> (hashnode list \<times> nat) \<times> Resource list \<Rightarrow> nat
    \<Rightarrow> (hashnode list \<times> nat) \<times> Resource list" where
  "Prune_step now hp s idx =
     (case s of
        ((arr, len), pruned) \<Rightarrow>
          (let node = arr ! idx in
           if time_Sub now (lastUpdate node) > Expiry hp (elem node)
           then (fst (remove_in hp arr len (elem node)), pruned @ [elem node])
           else ((arr, len), pruned)))"

definition Prune :: "time \<Rightarrow> heap \<Rightarrow> Hashring \<Rightarrow> Hashring \<times> Resource list" where
  "Prune now hp h =
     (case foldl (Prune_step now hp) ((hashnodes h, length (hashnodes h)), [])
             [0..<length (hashnodes h)] of
        ((arr, len), pruned) \<Rightarrow> (h\<lparr>hashnodes := take len arr\<rparr>, pruned))"

definition Clear :: "Hashring \<Rightarrow> Hashring" where
  "Clear h = h\<lparr>hashnodes := []\<rparr>"

definition GetAll :: "Hashring \<Rightarrow> Resource list" where
  "GetAll h = map elem (hashnodes h)"

text \<open>
  Sequences of the three mutating operations, each with the clock reading at its call; an
  \<open>AddOrUpdate\<close> carries its second clock reading.  A
  panic of \<open>AddOrUpdate\<close> leaves the ring it returns; the run goes on from there, as a
  caller that recovers does.
\<close>

datatype ring_op = OpAdd Resource | OpAddOrUpdate Resource time | OpRemove Resource

fun apply_op :: "heap \<times> Hashring \<Rightarrow> time \<times> ring_op \<Rightarrow> heap \<times> Hashring" where
  "apply_op (hp, h) (now, OpAdd r) = (hp, fst (Add now hp h r))"
| "apply_op (hp, h) (now, OpAddOrUpdate r later) =
     (case AddOrUpdate now later hp h r of (hp', h', res) \<Rightarrow> (hp', h'))"
| "apply_op (hp, h) (now, OpRemove r) = (hp, fst (Remove hp h r))"

definition run_ops :: "heap \<Rightarrow> (time \<times> ring_op) list \<Rightarrow> heap \<times> Hashring" where
  "run_ops hp ops = foldl apply_op (hp, NewHashring) ops"

text \<open>The ring of the example: hash keys 2, 5 and 9.\<close>

definition ring259 :: Hashring where
  "ring259 = \<lparr>hashnodes = [\<lparr>hashkey = 2, elem = 20, lastUpdate = 0\<rparr>, \<lparr>hashkey = 5, elem = 50, lastUpdate = 0\<rparr>, \<lparr>hashkey = 9, elem = 90, lastUpdate = 0\<rparr>]\<rparr>"

text \<open>
  The order of a ring: the hash keys ascend and no key occurs twice; and every node is
  filed under the UID of its element.
\<close>

definition ring_sorted :: "hashnode list \<Rightarrow> bool" where
  "ring_sorted ns = (sorted (map hashkey ns) \<and> distinct (map hashkey ns))"

definition keys_match :: "heap \<Rightarrow> hashnode list \<Rightarrow> bool" where
  "keys_match hp ns = (\<forall>n\<in>set ns. hashkey n = Uid hp (elem n))"

text \<open>
  A heap for the examples: the object at reference \<open>r\<close> has \<open>r\<close> as UID and as OID, an expiry
  of 10 nanoseconds and an untested test result; and a ring of the three resources 1, 2, 3
  with given times of last update.
\<close>

definition hp3 :: heap where
  "hp3 r = \<lparr>Impl = Base, RType = ''dummy'', UniqueId = of_nat r, ObjectId = of_nat r,
     RelationIds = [], Distribution = [], ExpiryTime = 10,
     Test = Some \<lparr>State = 0, Speed = 0, Ratio = None, LastTested = 0, LastPassed = 0, Error = []\<rparr>,
     BridgeLine = []\<rparr>"

definition ring3 :: "time \<Rightarrow> time \<Rightarrow> time \<Rightarrow> Hashring" where
  "ring3 a b c = \<lparr>hashnodes = [\<lparr>hashkey = 1, elem = 1, lastUpdate = a\<rparr>,
       \<lparr>hashkey = 2, elem = 2, lastUpdate = b\<rparr>, \<lparr>hashkey = 3, elem = 3, lastUpdate = c\<rparr>]\<rparr>"

text \<open>A heap as \<open>hp3\<close>, with a given state and speed in every test result.\<close>

definition hp_tested :: "int \<Rightarrow> int \<Rightarrow> heap" where
  "hp_tested st sp r = \<lparr>Impl = Base, RType = ''dummy'', UniqueId = of_nat r, ObjectId = of_nat r,
     RelationIds = [], Distribution = [], ExpiryTime = 10,
     Test = Some \<lparr>State = st, Speed = sp, Ratio = None, LastTested = 0, LastPassed = 0, Error = []\<rparr>,
     BridgeLine = []\<rparr>"

section \<open>Stencil (package core)\<close>

record interval =
  Begin :: int
  End :: int
  Name :: string

text \<open>
  A Go map that the code ranges over is an association list with distinct keys, in the
  order in which the range visits the keys (an order Go leaves open).  \<open>proportions\<close> is such
  a map from partition names to weights.  \<open>buildStencil\<close> sorts the names with
  \<open>sort.Strings\<close>, that is bytewise, and lays the intervals out in that order.
\<close>

fun buildStencil_loop :: "(string \<times> int) list \<Rightarrow> int \<Rightarrow> string list \<Rightarrow> interval list" where
  "buildStencil_loop proportions i [] = []"
| "buildStencil_loop proportions i (k # keys) =
     (let w = (case map_of proportions k of None \<Rightarrow> 0 | Some w \<Rightarrow> w)
      in \<lparr>Begin = i, End = i + w - 1, Name = k\<rparr> # buildStencil_loop proportions (i + w) keys)"

definition buildStencil :: "(string \<times> int) list \<Rightarrow> interval list" where
  "buildStencil proportions = buildStencil_loop proportions 0 (sort (map fst proportions))"

definition Contains :: "interval \<Rightarrow> int \<Rightarrow> bool" where
  "Contains i n = (Begin i \<le> n \<and> n \<le> End i)"

definition FindByValue :: "interval list \<Rightarrow> int \<Rightarrow> error + interval" where
  "FindByValue s n =
     (case find (\<lambda>i. Contains i n) s of None \<Rightarrow> Inl ErrNoInterval | Some i \<Rightarrow> Inr i)"

definition GetUpperEnd :: "interval list \<Rightarrow> error + int" where
  "GetUpperEnd s =
     (if length s = 0 then Inl ErrEmptyStencil
      else Inr (foldl (\<lambda>max i. if End i > max then End i else max) 0 s))"

text \<open>
  \<open>GetPartitionName\<close> seeds Go's global generator with the UID, \<open>rand.Seed(int64(seed))\<close>, and
  draws \<open>rand.Intn(upperEnd + 1)\<close>.  The generator is \<open>math/rand\<close> of Go's standard
  library, not code of this program: it is the parameter \<open>rnd\<close>, with \<open>rnd seed n\<close> the value
  that \<open>rand.Intn(n)\<close> returns right after \<open>rand.Seed(seed)\<close>.
\<close>

definition stencil_GetPartitionName :: "(int \<Rightarrow> int \<Rightarrow> int) \<Rightarrow> heap \<Rightarrow> interval list \<Rightarrow> Resource \<Rightarrow> string" where
  "stencil_GetPartitionName rnd hp s r =
     (case GetUpperEnd s of
        Inl err \<Rightarrow> []
      | Inr upperEnd \<Rightarrow>
          (let seed = Uid hp r;
               n = rnd (sint seed) (upperEnd + 1)
           in case FindByValue s n of Inl err \<Rightarrow> [] | Inr i \<Rightarrow> Name i))"

section \<open>Partitioned hashring (pkg/core/collection.go, pkg/core/domain.go)\<close>

record partitionedHashring =
  partitions :: "(string \<times> Hashring) list"
  relations :: "string \<rightharpoonup> string"
  stencil :: "interval list"

definition newPartitionedHashring :: "(string \<times> int) list \<Rightarrow> partitionedHashring" where
  "newPartitionedHashring proportions =
     \<lparr>partitions = map (\<lambda>(partitionName, w). (partitionName, NewHashring)) proportions,
      relations = Map.empty,
      stencil = buildStencil proportions\<rparr>"

definition p_getPartitionName :: "(int \<Rightarrow> int \<Rightarrow> int) \<Rightarrow> heap \<Rightarrow> partitionedHashring \<Rightarrow> Resource \<Rightarrow> string" where
  "p_getPartitionName rnd hp p r =
     (let partitionName =
            foldl (\<lambda>partitionName id.
                     case relations p id of
                       None \<Rightarrow> partitionName
                     | Some name \<Rightarrow>
                         (case map_of (partitions p) name of
                            None \<Rightarrow> partitionName
                          | Some h \<Rightarrow> name))
                  [] (RelationIdentifiers hp r)
      in if partitionName = [] then stencil_GetPartitionName rnd hp (stencil p) r
         else partitionName)"

definition p_addRelationIdentifiers :: "heap \<Rightarrow> partitionedHashring \<Rightarrow> Resource \<Rightarrow> string \<Rightarrow> partitionedHashring" where
  "p_addRelationIdentifiers hp p r partitionName =
     p\<lparr>relations := foldl (\<lambda>rel identifier. rel(identifier \<mapsto> partitionName))
                         (relations p) (RelationIdentifiers hp r)\<rparr>"

text \<open>
  \<open>p.partitions[name]\<close> is the nil \<open>*Hashring\<close> when the map has no such partition, and the
  first statement of \<open>Add\<close>, \<open>AddOrUpdate\<close> and \<open>Remove\<close> on it, \<open>h.Lock()\<close>, panics.  The
  relation identifiers are recorded before that.
\<close>

definition on_partition_Add :: "time \<Rightarrow> heap \<Rightarrow> partitionedHashring \<Rightarrow> string \<Rightarrow> Resource
    \<Rightarrow> partitionedHashring \<times> (panic + error option)" where
  "on_partition_Add now hp p name r =
     (case map_of (partitions p) name of
        None \<Rightarrow> (p, Inl NilDereference)
      | Some hashring \<Rightarrow>
          (case Add now hp hashring r of
             (hashring', err) \<Rightarrow>
               (p\<lparr>partitions := AList.update name hashring' (partitions p)\<rparr>, Inr err)))"

definition on_partition_AddOrUpdate :: "time \<Rightarrow> time \<Rightarrow> heap \<Rightarrow> partitionedHashring \<Rightarrow> string \<Rightarrow> Resource
    \<Rightarrow> heap \<times> partitionedHashring \<times> (panic + int)" where
  "on_partition_AddOrUpdate now later hp p name r =
     (case map_of (partitions p) name of
        None \<Rightarrow> (hp, p, Inl NilDereference)
      | Some hashring \<Rightarrow>
          (case AddOrUpdate now later hp hashring r of
             (hp', hashring', res) \<Rightarrow>
               (hp', p\<lparr>partitions := AList.update name hashring' (partitions p)\<rparr>, res)))"

definition on_partition_Remove :: "heap \<Rightarrow> partitionedHashring \<Rightarrow> string \<Rightarrow> Resource
    \<Rightarrow> partitionedHashring \<times> (panic + error option)" where
  "on_partition_Remove hp p name r =
     (case map_of (partitions p) name of
        None \<Rightarrow> (p, Inl NilDereference)
      | Some hashring \<Rightarrow>
          (case Remove hp hashring r of
             (hashring', err) \<Rightarrow>
               (p\<lparr>partitions := AList.update name hashring' (partitions p)\<rparr>, Inr err)))"

definition p_Add :: "(int \<Rightarrow> int \<Rightarrow> int) \<Rightarrow> time \<Rightarrow> heap \<Rightarrow> partitionedHashring \<Rightarrow> Resource
    \<Rightarrow> partitionedHashring \<times> (panic + error option)" where
  "p_Add rnd now hp p r =
     (let name = p_getPartitionName rnd hp p r;
          p = p_addRelationIdentifiers hp p r name
      in on_partition_Add now hp p name r)"

definition p_AddOrUpdate :: "(int \<Rightarrow> int \<Rightarrow> int) \<Rightarrow> time \<Rightarrow> time \<Rightarrow> heap \<Rightarrow> partitionedHashring \<Rightarrow> Resource
    \<Rightarrow> heap \<times> partitionedHashring \<times> (panic + int)" where
  "p_AddOrUpdate rnd now later hp p r =
     (let name = p_getPartitionName rnd hp p r;
          p = p_addRelationIdentifiers hp p r name
      in on_partition_AddOrUpdate now later hp p name r)"

definition p_Remove :: "(int \<Rightarrow> int \<Rightarrow> int) \<Rightarrow> heap \<Rightarrow> partitionedHashring \<Rightarrow> Resource
    \<Rightarrow> partitionedHashring \<times> (panic + error option)" where
  "p_Remove rnd hp p r = on_partition_Remove hp p (p_getPartitionName rnd hp p r) r"

definition p_GetAll :: "partitionedHashring \<Rightarrow> Resource list" where
  "p_GetAll p = concat (map (\<lambda>(name, h). GetAll h) (partitions p))"

definition p_Prune :: "time \<Rightarrow> heap \<Rightarrow> partitionedHashring \<Rightarrow> partitionedHashring \<times> Resource list" where
  "p_Prune now hp p =
     (p\<lparr>partitions := map (\<lambda>(name, h). (name, fst (Prune now hp h))) (partitions p)\<rparr>,
      concat (map (\<lambda>(name, h). snd (Prune now hp h)) (partitions p)))"

definition p_Len :: "partitionedHashring \<Rightarrow> nat" where
  "p_Len p = sum_list (map (\<lambda>(name, partition). Len partition) (partitions p))"

definition p_Clear :: "partitionedHashring \<Rightarrow> partitionedHashring" where
  "p_Clear p = p\<lparr>partitions := map (\<lambda>(name, h). (name, NewHashring)) (partitions p)\<rparr>"

text \<open>
  \<open>partitionedWithDistributors\<close> wraps a partitioned hashring of the backend: it adds the
  partition \<open>none\<close>, lets the distributor a resource declares decide its partition, and
  records no relation for the partition \<open>none\<close>.
\<close>

definition newPartitionedWithDistributors :: "partitionedHashring \<Rightarrow> partitionedHashring" where
  "newPartitionedWithDistributors p =
     p\<lparr>partitions := AList.update ''none'' NewHashring (partitions p)\<rparr>"

definition pwd_getPartitionName :: "(int \<Rightarrow> int \<Rightarrow> int) \<Rightarrow> heap \<Rightarrow> partitionedHashring \<Rightarrow> Resource \<Rightarrow> string" where
  "pwd_getPartitionName rnd hp p r =
     (let distName = Distributor hp r
      in if distName \<noteq> [] then
           (case map_of (partitions p) distName of None \<Rightarrow> ''none'' | Some h \<Rightarrow> distName)
         else p_getPartitionName rnd hp p r)"

definition pwd_addRelationIdentifiers :: "heap \<Rightarrow> partitionedHashring \<Rightarrow> Resource \<Rightarrow> string \<Rightarrow> partitionedHashring" where
  "pwd_addRelationIdentifiers hp p r partitionName =
     (if partitionName = ''none'' then p else p_addRelationIdentifiers hp p r partitionName)"

definition pwd_Add :: "(int \<Rightarrow> int \<Rightarrow> int) \<Rightarrow> time \<Rightarrow> heap \<Rightarrow> partitionedHashring \<Rightarrow> Resource
    \<Rightarrow> partitionedHashring \<times> (panic + error option)" where
  "pwd_Add rnd now hp p r =
     (let name = pwd_getPartitionName rnd hp p r;
          p = pwd_addRelationIdentifiers hp p r name
      in on_partition_Add now hp p name r)"

definition pwd_AddOrUpdate :: "(int \<Rightarrow> int \<Rightarrow> int) \<Rightarrow> time \<Rightarrow> time \<Rightarrow> heap \<Rightarrow> partitionedHashring \<Rightarrow> Resource
    \<Rightarrow> heap \<times> partitionedHashring \<times> (panic + int)" where
  "pwd_AddOrUpdate rnd now later hp p r =
     (let name = pwd_getPartitionName rnd hp p r;
          p = pwd_addRelationIdentifiers hp p r name
      in on_partition_AddOrUpdate now later hp p name r)"

definition pwd_Remove :: "(int \<Rightarrow> int \<Rightarrow> int) \<Rightarrow> heap \<Rightarrow> partitionedHashring \<Rightarrow> Resource
    \<Rightarrow> partitionedHashring \<times> (panic + error option)" where
  "pwd_Remove rnd hp p r = on_partition_Remove hp p (pwd_getPartitionName rnd hp p r) r"

section \<open>Collection (pkg/core/collection.go)\<close>

text \<open>
  A \<open>ResourceGroup\<close> is a hashring, a partitioned hashring, or (in the backend) a partitioned
  hashring with distributors.  The methods of a group return the heap and the group in
  every case, and beside them the result or the panic.
\<close>

datatype ResourceGroup =
  Unpartitioned Hashring
  | Partitioned partitionedHashring
  | WithDistributors partitionedHashring

fun g_Add :: "(int \<Rightarrow> int \<Rightarrow> int) \<Rightarrow> time \<Rightarrow> heap \<Rightarrow> ResourceGroup \<Rightarrow> Resource
    \<Rightarrow> ResourceGroup \<times> (panic + error option)" where
  "g_Add rnd now hp (Unpartitioned h) r =
     (case Add now hp h r of (h', err) \<Rightarrow> (Unpartitioned h', Inr err))"
| "g_Add rnd now hp (Partitioned p) r =
     (case p_Add rnd now hp p r of (p', res) \<Rightarrow> (Partitioned p', res))"
| "g_Add rnd now hp (WithDistributors p) r =
     (case pwd_Add rnd now hp p r of (p', res) \<Rightarrow> (WithDistributors p', res))"

fun g_AddOrUpdate :: "(int \<Rightarrow> int \<Rightarrow> int) \<Rightarrow> time \<Rightarrow> time \<Rightarrow> heap \<Rightarrow> ResourceGroup \<Rightarrow> Resource
    \<Rightarrow> heap \<times> ResourceGroup \<times> (panic + int)" where
  "g_AddOrUpdate rnd now later hp (Unpartitioned h) r =
     (case AddOrUpdate now later hp h r of (hp', h', res) \<Rightarrow> (hp', Unpartitioned h', res))"
| "g_AddOrUpdate rnd now later hp (Partitioned p) r =
     (case p_AddOrUpdate rnd now later hp p r of (hp', p', res) \<Rightarrow> (hp', Partitioned p', res))"
| "g_AddOrUpdate rnd now later hp (WithDistributors p) r =
     (case pwd_AddOrUpdate rnd now later hp p r of (hp', p', res) \<Rightarrow> (hp', WithDistributors p', res))"

fun g_Remove :: "(int \<Rightarrow> int \<Rightarrow> int) \<Rightarrow> heap \<Rightarrow> ResourceGroup \<Rightarrow> Resource
    \<Rightarrow> ResourceGroup \<times> (panic + error option)" where
  "g_Remove rnd hp (Unpartitioned h) r =
     (case Remove hp h r of (h', err) \<Rightarrow> (Unpartitioned h', Inr err))"
| "g_Remove rnd hp (Partitioned p) r =
     (case p_Remove rnd hp p r of (p', res) \<Rightarrow> (Partitioned p', res))"
| "g_Remove rnd hp (WithDistributors p) r =
     (case pwd_Remove rnd hp p r of (p', res) \<Rightarrow> (WithDistributors p', res))"

fun g_Clear :: "ResourceGroup \<Rightarrow> ResourceGroup" where
  "g_Clear (Unpartitioned h) = Unpartitioned (Clear h)"
| "g_Clear (Partitioned p) = Partitioned (p_Clear p)"
| "g_Clear (WithDistributors p) = WithDistributors (p_Clear p)"

fun g_GetAll :: "ResourceGroup \<Rightarrow> Resource list" where
  "g_GetAll (Unpartitioned h) = GetAll h"
| "g_GetAll (Partitioned p) = p_GetAll p"
| "g_GetAll (WithDistributors p) = p_GetAll p"

fun g_Prune :: "time \<Rightarrow> heap \<Rightarrow> ResourceGroup \<Rightarrow> ResourceGroup \<times> Resource list" where
  "g_Prune now hp (Unpartitioned h) = (case Prune now hp h of (h', rs) \<Rightarrow> (Unpartitioned h', rs))"
| "g_Prune now hp (Partitioned p) = (case p_Prune now hp p of (p', rs) \<Rightarrow> (Partitioned p', rs))"
| "g_Prune now hp (WithDistributors p) =
     (case p_Prune now hp p of (p', rs) \<Rightarrow> (WithDistributors p', rs))"

fun g_getPartitionName :: "(int \<Rightarrow> int \<Rightarrow> int) \<Rightarrow> heap \<Rightarrow> ResourceGroup \<Rightarrow> Resource \<Rightarrow> string" where
  "g_getPartitionName rnd hp (Unpartitioned h) r = []"
| "g_getPartitionName rnd hp (Partitioned p) r = p_getPartitionName rnd hp p r"
| "g_getPartitionName rnd hp (WithDistributors p) r = pwd_getPartitionName rnd hp p r"

type_synonym Collection = "string \<rightharpoonup> ResourceGroup"

definition c_Add :: "(int \<Rightarrow> int \<Rightarrow> int) \<Rightarrow> time \<Rightarrow> heap \<Rightarrow> Collection \<Rightarrow> Resource
    \<Rightarrow> Collection \<times> (panic + error option)" where
  "c_Add rnd now hp c resource =
     (case c (Type hp resource) of
        None \<Rightarrow> (c, Inr (Some ErrNoResourceType))
      | Some rt \<Rightarrow>
          (case g_Add rnd now hp rt resource of
             (rt', res) \<Rightarrow> (c(Type hp resource \<mapsto> rt'), res)))"

section \<open>Resource queues, resource maps and diffs (pkg/core/domain.go)\<close>

type_synonym ResourceQueue = "Resource list"
type_synonym ResourceMap = "string \<rightharpoonup> ResourceQueue"

text \<open>
  The three maps of a diff are only ranged over: they are association lists with distinct
  keys, in the order of the range.
\<close>

record ResourceDiff =
  New :: "(string \<times> ResourceQueue) list"
  Changed :: "(string \<times> ResourceQueue) list"
  Gone :: "(string \<times> ResourceQueue) list"
  FullUpdate :: bool

definition Enqueue :: "heap \<Rightarrow> ResourceQueue \<Rightarrow> Resource \<Rightarrow> ResourceQueue \<times> error option" where
  "Enqueue hp q r1 =
     (if \<exists>r2\<in>set q. Uid hp r1 = Uid hp r2 then (q, Some ErrAlreadyExists)
      else (q @ [r1], None))"

definition Delete :: "heap \<Rightarrow> ResourceQueue \<Rightarrow> Resource \<Rightarrow> ResourceQueue \<times> error option" where
  "Delete hp q r1 =
     (if length q = 0 then (q, Some ErrQueueEmpty)
      else (filter (\<lambda>r2. Uid hp r1 \<noteq> Uid hp r2) q, None))"

definition Update :: "heap \<Rightarrow> ResourceQueue \<Rightarrow> Resource \<Rightarrow> ResourceQueue \<times> error option" where
  "Update hp q r1 =
     (if length q = 0 then (q, Some ErrQueueEmpty)
      else (map (\<lambda>r2. if Uid hp r1 = Uid hp r2 then r1 else r2) q, None))"

text \<open>
  One loop of \<open>ResourceMap.ApplyDiff\<close>: for every type of the map \<open>src\<close> of the diff and every
  resource listed under it, read the queue of the type (the nil queue when the map has
  none), apply \<open>f\<close>, and store the queue back.
\<close>

definition queue_of :: "ResourceMap \<Rightarrow> string \<Rightarrow> ResourceQueue" where
  "queue_of m t = (case m t of None \<Rightarrow> [] | Some q \<Rightarrow> q)"

definition apply_to_queues :: "(ResourceQueue \<Rightarrow> Resource \<Rightarrow> ResourceQueue \<times> error option)
    \<Rightarrow> (string \<times> ResourceQueue) list \<Rightarrow> ResourceMap \<Rightarrow> ResourceMap" where
  "apply_to_queues f src resmap =
     foldl (\<lambda>resmap (rType, resources).
              foldl (\<lambda>resmap r. resmap(rType \<mapsto> fst (f (queue_of resmap rType) r)))
                    resmap resources)
           resmap src"

definition rm_ApplyDiff :: "heap \<Rightarrow> ResourceMap \<Rightarrow> ResourceDiff \<Rightarrow> ResourceMap" where
  "rm_ApplyDiff hp m d =
     (let resmap = (if FullUpdate d
                    then (\<lambda>t. case m t of None \<Rightarrow> None | Some q \<Rightarrow> Some [])
                    else m);
          resmap = apply_to_queues (Enqueue hp) (New d) resmap;
          resmap = apply_to_queues (Update hp) (Changed d) resmap;
          resmap = apply_to_queues (Delete hp) (Gone d) resmap
      in if FullUpdate d
         then (\<lambda>t. case m t of None \<Rightarrow> None | Some q \<Rightarrow> resmap t)
         else resmap)"

text \<open>
  \<open>Collection.ApplyDiff\<close> calls a method on \<open>c[rType]\<close>, which is the nil interface for a
  type the collection does not hold: the call panics, and the panic ends \<open>ApplyDiff\<close>.  The
  errors and events the methods return are dropped.  Every call of \<open>Add\<close> and \<open>AddOrUpdate\<close>
  reads the clock anew, at most twice: the call number \<open>k\<close> of a run reads \<open>clock (2 * k)\<close> and
  \<open>clock (2 * k + 1)\<close>.  The state of a run is the number of calls made, the heap, the
  collection and the panic, if any.
\<close>

type_synonym apply_state = "nat \<times> heap \<times> Collection \<times> panic option"

definition c_call :: "(nat \<Rightarrow> heap \<Rightarrow> ResourceGroup \<Rightarrow> Resource \<Rightarrow> heap \<times> ResourceGroup \<times> panic option)
    \<Rightarrow> string \<Rightarrow> apply_state \<Rightarrow> Resource \<Rightarrow> apply_state" where
  "c_call f rType s r =
     (case s of
        (k, hp, c, pn) \<Rightarrow>
          (case pn of
             Some x \<Rightarrow> (k, hp, c, pn)
           | None \<Rightarrow>
               (case c rType of
                  None \<Rightarrow> (k, hp, c, Some NilDereference)
                | Some g \<Rightarrow>
                    (case f k hp g r of
                       (hp', g', pn') \<Rightarrow> (Suc k, hp', c(rType \<mapsto> g'), pn')))))"

definition c_each :: "(nat \<Rightarrow> heap \<Rightarrow> ResourceGroup \<Rightarrow> Resource \<Rightarrow> heap \<times> ResourceGroup \<times> panic option)
    \<Rightarrow> (string \<times> ResourceQueue) list \<Rightarrow> apply_state \<Rightarrow> apply_state" where
  "c_each f src s =
     foldl (\<lambda>s (rType, resources). foldl (c_call f rType) s resources) s src"

definition panic_of :: "panic + 'a \<Rightarrow> panic option" where
  "panic_of res = (case res of Inl x \<Rightarrow> Some x | Inr v \<Rightarrow> None)"

definition call_Add :: "(int \<Rightarrow> int \<Rightarrow> int) \<Rightarrow> (nat \<Rightarrow> time) \<Rightarrow> nat \<Rightarrow> heap \<Rightarrow> ResourceGroup \<Rightarrow> Resource
    \<Rightarrow> heap \<times> ResourceGroup \<times> panic option" where
  "call_Add rnd clock k hp g r =
     (case g_Add rnd (clock (2 * k)) hp g r of (g', res) \<Rightarrow> (hp, g', panic_of res))"

definition call_AddOrUpdate :: "(int \<Rightarrow> int \<Rightarrow> int) \<Rightarrow> (nat \<Rightarrow> time) \<Rightarrow> nat \<Rightarrow> heap \<Rightarrow> ResourceGroup
    \<Rightarrow> Resource \<Rightarrow> heap \<times> ResourceGroup \<times> panic option" where
  "call_AddOrUpdate rnd clock k hp g r =
     (case g_AddOrUpdate rnd (clock (2 * k)) (clock (2 * k + 1)) hp g r of
        (hp', g', res) \<Rightarrow> (hp', g', panic_of res))"

definition call_Remove :: "(int \<Rightarrow> int \<Rightarrow> int) \<Rightarrow> nat \<Rightarrow> heap \<Rightarrow> ResourceGroup \<Rightarrow> Resource
    \<Rightarrow> heap \<times> ResourceGroup \<times> panic option" where
  "call_Remove rnd k hp g r =
     (case g_Remove rnd hp g r of (g', res) \<Rightarrow> (hp, g', panic_of res))"

definition c_ApplyDiff :: "(int \<Rightarrow> int \<Rightarrow> int) \<Rightarrow> (nat \<Rightarrow> time) \<Rightarrow> heap \<Rightarrow> Collection \<Rightarrow> ResourceDiff \<Rightarrow> apply_state" where
  "c_ApplyDiff rnd clock hp c diff =
     (let c = (if FullUpdate diff then (\<lambda>rType. map_option g_Clear (c rType)) else c);
          s = c_each (call_Add rnd clock) (New diff) (0, hp, c, None);
          s = c_each (call_AddOrUpdate rnd clock) (Changed diff) s;
          s = c_each (call_Remove rnd) (Gone diff) s
      in s)"

text \<open>\<open>d.New[t]\<close> and its like: the slice listed under a type, the nil slice when there is none.\<close>

definition listed :: "(string \<times> ResourceQueue) list \<Rightarrow> string \<Rightarrow> ResourceQueue" where
  "listed src t = (case map_of src t of None \<Rightarrow> [] | Some resources \<Rightarrow> resources)"

section \<open>Backend resources (pkg/core/domain.go)\<close>

record ResourceRequest =
  RequestOrigin :: string
  ResourceTypes :: "string list"

definition HasResourceType :: "ResourceRequest \<Rightarrow> string \<Rightarrow> bool" where
  "HasResourceType req rType1 = List.member (ResourceTypes req) rType1"

text \<open>
  A channel is known by its identity.  What the backend sends is the list of the sends
  \<open>c <- diff\<close> of a call, in their order.
\<close>

type_synonym chan = nat

record EventRecipient =
  EventChans :: "chan list"
  Request :: ResourceRequest

record BackendResources =
  Collection :: Collection
  OnlyFunctional :: bool
  UseBandwidthRatio :: bool
  EventRecipients :: "string \<rightharpoonup> EventRecipient"

definition propagateUpdate :: "(int \<Rightarrow> int \<Rightarrow> int) \<Rightarrow> heap \<Rightarrow> BackendResources \<Rightarrow> Resource \<Rightarrow> int
    \<Rightarrow> (chan \<times> ResourceDiff) list" where
  "propagateUpdate rnd hp ctx r event =
     (case Collection ctx (Type hp r) of
        None \<Rightarrow> []
      | Some g \<Rightarrow>
          (let diff = \<lparr>New = [], Changed = [], Gone = [], FullUpdate = False\<rparr>;
               rm = [(Type hp r, [r])]
           in case (if event = ResourceIsNew then Some (diff\<lparr>New := rm\<rparr>)
                    else if event = ResourceChanged then Some (diff\<lparr>Changed := rm\<rparr>)
                    else if event = ResourceIsGone then Some (diff\<lparr>Gone := rm\<rparr>)
                    else None) of
                None \<Rightarrow> []
              | Some diff \<Rightarrow>
                  (let distName = g_getPartitionName rnd hp g r
                   in case EventRecipients ctx distName of
                        None \<Rightarrow> []
                      | Some eventRecipient \<Rightarrow>
                          if \<not> HasResourceType (Request eventRecipient) (Type hp r) then []
                          else map (\<lambda>c. (c, diff)) (EventChans eventRecipient))))"

text \<open>
  \<open>BackendResources.Add\<close> has no result.  The model returns the heap, the backend, the
  sends, and the panic of \<open>AddOrUpdate\<close> if there is one.
\<close>

definition br_Add :: "(int \<Rightarrow> int \<Rightarrow> int) \<Rightarrow> time \<Rightarrow> time \<Rightarrow> heap \<Rightarrow> BackendResources \<Rightarrow> Resource
    \<Rightarrow> heap \<times> BackendResources \<times> (chan \<times> ResourceDiff) list \<times> panic option" where
  "br_Add rnd now later hp ctx r1 =
     (case Collection ctx (Type hp r1) of
        None \<Rightarrow> (hp, ctx, [], None)
      | Some hashring \<Rightarrow>
          (case g_AddOrUpdate rnd now later hp hashring r1 of
             (hp', hashring', res) \<Rightarrow>
               (let ctx' = ctx\<lparr>Collection := (Collection ctx)(Type hp r1 \<mapsto> hashring')\<rparr>
                in case res of
                     Inl pn \<Rightarrow> (hp', ctx', [], Some pn)
                   | Inr event \<Rightarrow>
                       if event \<noteq> ResourceUnchanged
                       then (hp', ctx', propagateUpdate rnd hp' ctx' r1 event, None)
                       else (hp', ctx', [], None))))"

section \<open>Bandwidth test results (internal/resourcetest.go)\<close>

text \<open>
  An entry of a test response; \<open>Ratio\<close> and \<open>LastTested\<close> are pointers, \<open>None\<close> when the
  JSON document has \<open>null\<close> or nothing there.  The fields carry the prefix \<open>bt\<close> to keep them
  apart from those of \<open>ResourceTest\<close>.
\<close>

record BridgeTest =
  bt_Functional :: bool
  bt_LastTested :: "time option"
  bt_Ratio :: "real option"
  bt_Error :: string

record BridgeTestResponse =
  Bridges :: "(string \<times> BridgeTest) list"
  Time :: real
  resp_Error :: string

text \<open>
  The body of the loop of \<open>testOnbasca\<close> for one entry \<open>bridgeTest\<close> matched to the pooled
  resource \<open>r\<close>.  Writing through a nil \<open>rTest\<close> and reading \<open>*bridgeTest.Ratio\<close> through a nil
  pointer panic.
\<close>

definition onbasca_entry :: "real \<Rightarrow> heap \<Rightarrow> Resource \<Rightarrow> BridgeTest \<Rightarrow> panic + heap" where
  "onbasca_entry bandwidthRatioThreshold hp r bridgeTest =
     (let store = (\<lambda>rTest. Inr (hp(r := (hp r)\<lparr>Test := Some rTest\<rparr>))) in
      if bt_Error bridgeTest \<noteq> [] then
        (case TestResult hp r of
           None \<Rightarrow> Inl NilDereference
         | Some rTest \<Rightarrow> store (rTest\<lparr>Ratio := None, Speed := SpeedUntested\<rparr>))
      else if (case bt_Ratio bridgeTest of None \<Rightarrow> False | Some x \<Rightarrow> x = 0)
              \<and> bt_Functional bridgeTest then
        (case TestResult hp r of
           None \<Rightarrow> Inl NilDereference
         | Some rTest \<Rightarrow> store (rTest\<lparr>Ratio := None, Speed := SpeedUntested\<rparr>))
      else
        (case bt_Ratio bridgeTest of
           None \<Rightarrow> Inl NilDereference
         | Some x \<Rightarrow>
             (case TestResult hp r of
                None \<Rightarrow> Inl NilDereference
              | Some rTest \<Rightarrow>
                  store (rTest\<lparr>Speed := (if x < bandwidthRatioThreshold then SpeedRejected
                                          else SpeedAccepted),
                               Ratio := Some x\<rparr>))))"

text \<open>
  \<open>testOnbasca\<close>: \<open>response\<close> is what \<open>MakeJsonRequest\<close> filled in, \<open>None\<close> when the request
  failed.  A panic ends the loop.
\<close>

definition testOnbasca :: "real \<Rightarrow> heap \<Rightarrow> (string \<rightharpoonup> Resource) \<Rightarrow> BridgeTestResponse option \<Rightarrow> panic + heap" where
  "testOnbasca bandwidthRatioThreshold hp rMap response =
     (case response of
        None \<Rightarrow> Inr hp
      | Some resp \<Rightarrow>
          if resp_Error resp \<noteq> [] then Inr hp
          else foldl (\<lambda>s (bridgeLine, bridgeTest).
                        case s of
                          Inl pn \<Rightarrow> Inl pn
                        | Inr hp \<Rightarrow>
                            (case rMap bridgeLine of
                               None \<Rightarrow> Inr hp
                             | Some r \<Rightarrow> onbasca_entry bandwidthRatioThreshold hp r bridgeTest))
                     (Inr hp) (Bridges resp))"

text \<open>
  A backend for the examples: it holds the one type \<open>obfs4\<close>, in an unpartitioned hashring, and
  the distributor \<open>https\<close> listens on channel 0.  The resources of \<open>hp3\<close> have the type
  \<open>dummy\<close>.
\<close>

definition ctx_obfs4 :: BackendResources where
  "ctx_obfs4 =
     \<lparr>Collection = [''obfs4'' \<mapsto> Unpartitioned NewHashring],
      OnlyFunctional = False, UseBandwidthRatio = False,
      EventRecipients = [''https'' \<mapsto>
         \<lparr>EventChans = [0],
          Request = \<lparr>RequestOrigin = ''https'', ResourceTypes = [''obfs4'', ''dummy'']\<rparr>\<rparr>]\<rparr>"





text \<open>
  A value of the parameter \<open>rnd\<close> for the examples.  Seeded with 1, the generator of
  \<open>math/rand\<close> gives 1298498081 as its first 31-bit value (its first 63-bit value is
  5577006791947779410), and \<open>rand.Intn(n)\<close> for a small \<open>n\<close> is that value modulo \<open>n\<close>:
  \<open>rand.Seed(1); rand.Intn(100)\<close> is 81.  The function stands for \<open>math/rand\<close> at the seed 1
  only, which is the seed of a resource with the UID 1.
\<close>

definition draw_after_seed_1 :: "int \<Rightarrow> int \<Rightarrow> int" where
  "draw_after_seed_1 seed n = 1298498081 mod n"

text \<open>Two partitions of equal weight, and the backend hashring built from them.\<close>

definition props_half :: "(string \<times> int) list" where
  "props_half = [(''moat'', 50), (''https'', 50)]"

text \<open>
  \<open>NewDummy\<close> of dummy.go (the expiry is one hour), and the heap whose object at the reference
  \<open>r\<close> is \<open>NewDummy(r, r)\<close>.
\<close>

definition NewDummy :: "Hashkey \<Rightarrow> Hashkey \<Rightarrow> ResourceObj" where
  "NewDummy oid uid =
     \<lparr>Impl = Dummy, RType = ''dummy'', UniqueId = uid, ObjectId = oid, RelationIds = [],
      Distribution = [], ExpiryTime = 3600000000000,
      Test = Some \<lparr>State = StateFunctional, Speed = SpeedAccepted, Ratio = None,
                   LastTested = 0, LastPassed = 0, Error = []\<rparr>,
      BridgeLine = []\<rparr>"


definition backend_half :: partitionedHashring where
  "backend_half = newPartitionedWithDistributors (newPartitionedHashring props_half)"

text \<open>
  \<open>Add\<close> or \<open>AddOrUpdate\<close> on a partitioned hashring of the backend, by the flag \<open>update\<close>,
  keeping the heap and the hashring of the result.
\<close>

definition pwd_put :: "bool \<Rightarrow> (int \<Rightarrow> int \<Rightarrow> int) \<Rightarrow> time \<Rightarrow> time \<Rightarrow> heap \<Rightarrow> partitionedHashring
    \<Rightarrow> Resource \<Rightarrow> heap \<times> partitionedHashring" where
  "pwd_put update rnd now later hp p r =
     (if update then (case pwd_AddOrUpdate rnd now later hp p r of (hp', p', res) \<Rightarrow> (hp', p'))
      else (hp, fst (pwd_Add rnd now hp p r)))"

text \<open>
  Dummies with relation identifiers: the resources 10 and 11 declare the distributors
  \<open>https\<close> and \<open>moat\<close>; the resources 1, 2 and 3 declare none.  The resources 1, 3 and 10
  have the same fingerprint and address, the resource 2 has the fingerprint of 1 and the
  address of 11.
\<close>

definition hp_related :: heap where
  "hp_related r =
     (NewDummy (of_nat r) (of_nat r))
       \<lparr>RelationIds := (if r = 1 \<or> r = 3 \<or> r = 10 then [''fingerprint1'', ''address1'']
                         else if r = 2 then [''fingerprint1'', ''address2'']
                         else if r = 11 then [''fingerprint2'', ''address2'']
                         else []),
        Distribution := (if r = 10 then ''https'' else if r = 11 then ''moat'' else [])\<rparr>"

text \<open>The backend hashring \<open>backend_half\<close> after \<open>Add\<close> of the resources 10 and 11.\<close>

definition backend_declared :: partitionedHashring where
  "backend_declared =
     fst (pwd_Add draw_after_seed_1 0 hp_related
            (fst (pwd_Add draw_after_seed_1 0 hp_related backend_half 10)) 11)"

text \<open>
  From the empty \<open>backend_half\<close>: \<open>Add\<close> of the resource 1, then \<open>AddOrUpdate\<close> of the
  resource 2.
\<close>

definition fresh_then_1 :: "heap \<times> partitionedHashring" where
  "fresh_then_1 = pwd_put False draw_after_seed_1 3 4 hp_related backend_half 1"

definition fresh_then_1_2 :: "heap \<times> partitionedHashring" where
  "fresh_then_1_2 = pwd_put True draw_after_seed_1 5 6 (fst fresh_then_1) (snd fresh_then_1) 2"

text \<open>From \<open>backend_declared\<close>: \<open>Add\<close> of the resource 1, then \<open>Add\<close> of the resource 2.\<close>

definition declared_then_1_2 :: "partitionedHashring \<times> (panic + error option)" where
  "declared_then_1_2 =
     pwd_Add draw_after_seed_1 2 hp_related
       (fst (pwd_Add draw_after_seed_1 1 hp_related backend_declared 1)) 2"

section \<open>Properties of the binary search and of the ring operations\<close>

lemma Search_loop_bounds: "i \<le> j \<Longrightarrow> i \<le> Search_loop f i j \<and> Search_loop f i j \<le> j"
proof (induction f i j rule: Search_loop.induct)
  case (1 f i j)
  show ?case
  proof (cases "i < j")
    case False
    with 1(3) show ?thesis by simp
  next
    case True
    let ?h = "(i + j) div 2"
    have hb: "i \<le> ?h" "?h < j" using True by auto
    show ?thesis
    proof (cases "f ?h")
      case True
      from 1(2)[OF \<open>i < j\<close> refl] True hb
      have "i \<le> Search_loop f i ?h \<and> Search_loop f i ?h \<le> ?h" by simp
      then show ?thesis using \<open>i < j\<close> True hb by (simp add: Let_def)
    next
      case False
      from 1(1)[OF \<open>i < j\<close> refl False] hb
      have "?h + 1 \<le> Search_loop f (?h + 1) j \<and> Search_loop f (?h + 1) j \<le> j" by simp
      then show ?thesis using \<open>i < j\<close> False hb by (simp add: Let_def)
    qed
  qed
qed

lemma Search_loop_least:
  assumes mono: "\<forall>x y. x \<le> y \<and> y < n \<and> f x \<longrightarrow> f y"
  shows "i \<le> j \<Longrightarrow> j \<le> n \<Longrightarrow> \<forall>x<i. \<not> f x \<Longrightarrow> \<forall>x. j \<le> x \<and> x < n \<longrightarrow> f x \<Longrightarrow>
         (\<forall>x < Search_loop f i j. \<not> f x) \<and> (\<forall>x. Search_loop f i j \<le> x \<and> x < n \<longrightarrow> f x)"
proof (induction "j - i" arbitrary: i j rule: less_induct)
  case less
  show ?case
  proof (cases "i < j")
    case False
    then have "Search_loop f i j = i" by (subst Search_loop.simps) simp
    moreover have "i = j" using False less.prems(1) by simp
    ultimately show ?thesis using less.prems(3,4) by simp
  next
    case True
    define h where "h = (i + j) div 2"
    have hb: "i \<le> h" "h < j" using True by (auto simp: h_def)
    show ?thesis
    proof (cases "f h")
      case fh: True
      have eq: "Search_loop f i j = Search_loop f i h"
        by (subst Search_loop.simps) (use True fh in \<open>simp add: h_def Let_def\<close>)
      have a: "\<forall>x. h \<le> x \<and> x < n \<longrightarrow> f x" using mono fh by blast
      have "h - i < j - i" using hb True by simp
      from less.hyps[OF this hb(1) _ less.prems(3) a] hb(2) less.prems(2)
      show ?thesis unfolding eq by simp
    next
      case nfh: False
      have eq: "Search_loop f i j = Search_loop f (h + 1) j"
        by (subst Search_loop.simps) (use True nfh in \<open>simp add: h_def Let_def\<close>)
      have a: "\<forall>x < h + 1. \<not> f x"
      proof (intro allI impI)
        fix x assume "x < h + 1"
        then have xh: "x \<le> h" by simp
        have "h < n" using hb(2) less.prems(2) by simp
        show "\<not> f x"
        proof
          assume "f x"
          with mono xh \<open>h < n\<close> have "f h" by blast
          with nfh show False by simp
        qed
      qed
      have "j - (h + 1) < j - i" using hb True by simp
      from less.hyps[OF this _ less.prems(2) a less.prems(4)] hb(2)
      show ?thesis unfolding eq by simp
    qed
  qed
qed

lemma upto_as_map: "[i..i + int m - 1] = map (\<lambda>j. i + int j) [0..<m]"
proof (induction m)
  case 0 show ?case by simp
next
  case (Suc m)
  have "[i..i + int (Suc m) - 1] = [i..i + int m - 1] @ [i + int m]"
    using upto_rec2[of i "i + int m"] by simp
  then show ?case using Suc by simp
qed

lemma getIndex_range:
  "ns \<noteq> [] \<Longrightarrow> \<exists>i<length ns. fst (getIndex ns k) = int i"
  by (auto simp: getIndex_def Let_def)

lemma GetMany_unfold:
  assumes len: "Len h \<noteq> 0" and g: "getIndex (hashnodes h) k = (int i, e)"
  shows "GetMany h k n = Inr (map (\<lambda>j. elem (hashnodes h ! (nat j mod Len h)))
           [int i..(if n \<ge> int (Len h) then int (Len h) else n) + int i - 1])"
  unfolding GetMany_def Let_def g using len by simp

lemma map_shift_mod:
  "map (\<lambda>j. f (nat j mod l)) (map (\<lambda>j. int i + int j) xs) = map (\<lambda>j. f ((i + j) mod l)) xs"
  by (induction xs) (simp_all add: nat_add_distrib)

lemma GetMany_general:
  assumes "hashnodes h \<noteq> []" and "fst (getIndex (hashnodes h) k) = int i"
  shows "GetMany h k n = Inr (map (\<lambda>j. elem (hashnodes h ! ((i + j) mod Len h))) [0..<nat (min n (int (Len h)))])"
proof -
  obtain e where g: "getIndex (hashnodes h) k = (int i, e)" using assms(2) by (cases "getIndex (hashnodes h) k") auto
  define m where "m = nat (min n (int (Len h)))"
  define num where "num = (if n \<ge> int (Len h) then int (Len h) else n)"
  have u: "[int i..num + int i - 1] = map (\<lambda>j. int i + int j) [0..<m]"
  proof (cases "0 \<le> num")
    case True
    then have "num = int m" by (auto simp: min_def m_def num_def)
    then show ?thesis using upto_as_map[of "int i" m] by (simp add: add.commute)
  next
    case False
    then have "n < 0" by (auto simp: num_def split: if_splits)
    then have "m = 0" "num < 0" by (auto simp: m_def num_def)
    then show ?thesis by simp
  qed
  have len: "Len h \<noteq> 0" using assms(1) by (simp add: Len_def)
  have "GetMany h k n = Inr (map (\<lambda>j. elem (hashnodes h ! (nat j mod Len h))) [int i..num + int i - 1])"
    unfolding num_def by (rule GetMany_unfold[OF len g])
  also have "map (\<lambda>j. elem (hashnodes h ! (nat j mod Len h))) [int i..num + int i - 1]
      = map (\<lambda>j. elem (hashnodes h ! ((i + j) mod Len h))) [0..<m]"
    unfolding u by (rule map_shift_mod)
  finally show ?thesis unfolding m_def .
qed

lemma Search_least:
  assumes "sorted (map hashkey ns)"
  shows "Search (length ns) (\<lambda>i. k \<le> hashkey (ns ! i)) \<le> length ns
       \<and> (\<forall>x < Search (length ns) (\<lambda>i. k \<le> hashkey (ns ! i)). \<not> k \<le> hashkey (ns ! x))
       \<and> (\<forall>x. Search (length ns) (\<lambda>i. k \<le> hashkey (ns ! i)) \<le> x \<and> x < length ns \<longrightarrow> k \<le> hashkey (ns ! x))"
proof -
  let ?f = "\<lambda>i. k \<le> hashkey (ns ! i)"
  have mono: "\<forall>x y. x \<le> y \<and> y < length ns \<and> ?f x \<longrightarrow> ?f y"
  proof (intro allI impI)
    fix x y assume a: "x \<le> y \<and> y < length ns \<and> ?f x"
    then have "map hashkey ns ! x \<le> map hashkey ns ! y"
      using assms sorted_nth_mono[of "map hashkey ns" x y] by simp
    then show "?f y" using a by auto
  qed
  have b: "Search_loop ?f 0 (length ns) \<le> length ns" using Search_loop_bounds[of 0 "length ns" ?f] by simp
  have c: "(\<forall>x < Search_loop ?f 0 (length ns). \<not> ?f x) \<and> (\<forall>x. Search_loop ?f 0 (length ns) \<le> x \<and> x < length ns \<longrightarrow> ?f x)"
    by (rule Search_loop_least[OF mono]) auto
  show ?thesis unfolding Search_def using b c by blast
qed

lemma getIndex_sorted:
  assumes s: "sorted (map hashkey ns)" and ne: "ns \<noteq> []" and g: "fst (getIndex ns k) = int i"
  shows "if \<exists>m<length ns. k \<le> hashkey (ns ! m)
         then k \<le> hashkey (ns ! i) \<and> (\<forall>m<i. hashkey (ns ! m) < k) else i = 0"
proof -
  define s0 where "s0 = Search (length ns) (\<lambda>i. k \<le> hashkey (ns ! i))"
  have L: "s0 \<le> length ns" "\<forall>x < s0. \<not> k \<le> hashkey (ns ! x)"
    "\<forall>x. s0 \<le> x \<and> x < length ns \<longrightarrow> k \<le> hashkey (ns ! x)"
    using Search_least[OF s, of k] unfolding s0_def by blast+
  have i: "i = (if s0 \<ge> length ns then 0 else s0)"
    using g ne unfolding getIndex_def Let_def s0_def[symmetric] by (auto split: if_splits)
  show ?thesis
  proof (cases "\<exists>m<length ns. k \<le> hashkey (ns ! m)")
    case True
    then obtain m where m: "m < length ns" "k \<le> hashkey (ns ! m)" by blast
    have "s0 < length ns"
    proof (rule ccontr)
      assume "\<not> s0 < length ns"
      then have "m < s0" using m(1) by simp
      with L(2) m(2) show False by blast
    qed
    then have "i = s0" using i by simp
    then show ?thesis using True L \<open>s0 < length ns\<close> by (auto simp: not_le)
  next
    case False
    then have "\<not> s0 < length ns" using L(3) by (meson le_refl)
    then show ?thesis using False i by auto
  qed
qed

text \<open>
  Claim C8.  On a non-empty ring \<open>GetMany k n\<close> returns \<open>min n len\<close> resources (none when
  \<open>n\<close> is negative): the elements of the ring from the index \<open>i\<close> that \<open>getIndex k\<close> returns,
  walking forward and wrapping around.  On a ring sorted by hash key that index is the one
  of the smallest hash key at or above \<open>k\<close>, and 0 when there is none.  On a ring with the
  hash keys 2, 5, 9, \<open>GetMany 6 2\<close> returns the elements of 9 and 2, and \<open>GetMany 10 5\<close>
  the elements of 2, 5 and 9.
\<close>

theorem GetMany_walks_with_wrap:
  "(hashnodes h \<noteq> [] \<longrightarrow>
     (\<exists>i<Len h. fst (getIndex (hashnodes h) k) = int i
        \<and> GetMany h k n = Inr (map (\<lambda>j. elem (hashnodes h ! ((i + j) mod Len h)))
                                  [0..<nat (min n (int (Len h)))])
        \<and> (sorted (map hashkey (hashnodes h)) \<longrightarrow>
             (if \<exists>m<Len h. k \<le> hashkey (hashnodes h ! m)
              then k \<le> hashkey (hashnodes h ! i) \<and> (\<forall>m<i. hashkey (hashnodes h ! m) < k)
              else i = 0))))
   \<and> (map hashkey (hashnodes g) = [2, 5, 9] \<longrightarrow>
        GetMany g 6 2 = Inr [elem (hashnodes g ! 2), elem (hashnodes g ! 0)]
        \<and> GetMany g 10 5 = Inr [elem (hashnodes g ! 0), elem (hashnodes g ! 1), elem (hashnodes g ! 2)])"
proof (intro conjI impI)
  assume ne: "hashnodes h \<noteq> []"
  then obtain i where i: "i < length (hashnodes h)" "fst (getIndex (hashnodes h) k) = int i"
    using getIndex_range by blast
  show "\<exists>i<Len h. fst (getIndex (hashnodes h) k) = int i
        \<and> GetMany h k n = Inr (map (\<lambda>j. elem (hashnodes h ! ((i + j) mod Len h)))
                                  [0..<nat (min n (int (Len h)))])
        \<and> (sorted (map hashkey (hashnodes h)) \<longrightarrow>
             (if \<exists>m<Len h. k \<le> hashkey (hashnodes h ! m)
              then k \<le> hashkey (hashnodes h ! i) \<and> (\<forall>m<i. hashkey (hashnodes h ! m) < k)
              else i = 0))"
  proof (intro exI[of _ i] conjI impI)
    show "i < Len h" using i(1) by (simp add: Len_def)
    show "fst (getIndex (hashnodes h) k) = int i" by (rule i(2))
    show "GetMany h k n = Inr (map (\<lambda>j. elem (hashnodes h ! ((i + j) mod Len h))) [0..<nat (min n (int (Len h)))])"
      by (rule GetMany_general[OF ne i(2)])
  next
    assume "sorted (map hashkey (hashnodes h))"
    from getIndex_sorted[OF this ne i(2)]
    show "if \<exists>m<Len h. k \<le> hashkey (hashnodes h ! m)
          then k \<le> hashkey (hashnodes h ! i) \<and> (\<forall>m<i. hashkey (hashnodes h ! m) < k) else i = 0"
      unfolding Len_def .
  qed
next
  assume a: "map hashkey (hashnodes g) = [2, 5, 9]"
  then obtain a b c where abc: "hashnodes g = [a, b, c]" "hashkey a = 2" "hashkey b = 5" "hashkey c = 9"
    by (auto simp: map_eq_Cons_conv)
  have srt: "sorted (map hashkey (hashnodes g))" unfolding a by simp
  have ne: "hashnodes g \<noteq> []" using abc(1) by simp
  obtain i6 where i6: "i6 < length (hashnodes g)" "fst (getIndex (hashnodes g) 6) = int i6"
    using getIndex_range[OF ne] by blast
  have "6 \<le> hashkey (hashnodes g ! 2)" using abc by simp
  then have "\<exists>m<length (hashnodes g). 6 \<le> hashkey (hashnodes g ! m)" using abc(1) by auto
  with getIndex_sorted[OF srt ne i6(2)]
  have "6 \<le> hashkey (hashnodes g ! i6)" by simp
  moreover have "i6 = 0 \<or> i6 = 1 \<or> i6 = 2" using i6(1) abc(1) by auto
  ultimately have "i6 = 2" using abc by auto
  then obtain e6 where g6: "getIndex (hashnodes g) 6 = (2, e6)" using i6(2)
    by (cases "getIndex (hashnodes g) 6") auto
  obtain i10 where i10: "i10 < length (hashnodes g)" "fst (getIndex (hashnodes g) 10) = int i10"
    using getIndex_range[OF ne] by blast
  have "\<not> (\<exists>m<length (hashnodes g). 10 \<le> hashkey (hashnodes g ! m))"
  proof
    assume "\<exists>m<length (hashnodes g). 10 \<le> hashkey (hashnodes g ! m)"
    then obtain m where m: "m < length (hashnodes g)" "10 \<le> hashkey (hashnodes g ! m)" by blast
    from m(1) have "m = 0 \<or> m = 1 \<or> m = 2" using abc(1) by auto
    with m(2) abc show False by auto
  qed
  with getIndex_sorted[OF srt ne i10(2)] have "i10 = 0" by simp
  then obtain e10 where g10: "getIndex (hashnodes g) 10 = (0, e10)" using i10(2)
    by (cases "getIndex (hashnodes g) 10") auto
  have len: "Len g \<noteq> 0" "Len g = 3" using abc(1) by (simp_all add: Len_def)
  have u1: "[2..(3::int)] = [2, 3]" and u2: "[0..(2::int)] = [0, 1, 2]" by (simp_all add: upto_rec1)
  have g6': "getIndex (hashnodes g) 6 = (int 2, e6)" using g6 by simp
  have g10': "getIndex (hashnodes g) 10 = (int 0, e10)" using g10 by simp
  have "GetMany g 6 2 = Inr (map (\<lambda>j. elem (hashnodes g ! (nat j mod Len g)))
          [int 2..(if 2 \<ge> int (Len g) then int (Len g) else 2) + int 2 - 1])"
    by (rule GetMany_unfold[OF len(1) g6'])
  also have "[int 2..(if 2 \<ge> int (Len g) then int (Len g) else 2) + int 2 - 1] = [2, 3]"
    unfolding len(2) using u1 by simp
  finally show "GetMany g 6 2 = Inr [elem (hashnodes g ! 2), elem (hashnodes g ! 0)]"
    unfolding len(2) by simp
  have "GetMany g 10 5 = Inr (map (\<lambda>j. elem (hashnodes g ! (nat j mod Len g)))
          [int 0..(if 5 \<ge> int (Len g) then int (Len g) else 5) + int 0 - 1])"
    by (rule GetMany_unfold[OF len(1) g10'])
  also have "[int 0..(if 5 \<ge> int (Len g) then int (Len g) else 5) + int 0 - 1] = [0, 1, 2]"
    unfolding len(2) using u2 by simp
  finally show "GetMany g 10 5 = Inr [elem (hashnodes g ! 0), elem (hashnodes g ! 1), elem (hashnodes g ! 2)]"
    unfolding len(2) by simp
qed

theorem GetMany_walks_with_wrap_witness:
  "hashnodes ring259 \<noteq> [] \<and> map hashkey (hashnodes ring259) = [2, 5, 9]
   \<and> GetMany ring259 6 2 = Inr [90, 20] \<and> GetMany ring259 10 5 = Inr [20, 50, 90]"
proof -
  have h: "map hashkey (hashnodes ring259) = [2, 5, 9]" by (simp add: ring259_def)
  from GetMany_walks_with_wrap[of ring259 6 2 ring259, THEN conjunct2, rule_format, OF h]
  have "GetMany ring259 6 2 = Inr [elem (hashnodes ring259 ! 2), elem (hashnodes ring259 ! 0)]
        \<and> GetMany ring259 10 5 = Inr [elem (hashnodes ring259 ! 0), elem (hashnodes ring259 ! 1), elem (hashnodes ring259 ! 2)]" .
  then show ?thesis using h by (simp add: ring259_def)
qed

lemma getIndex_cases:
  "getIndex ns k = (- 1, Some ErrEmpty) \<and> ns = []
   \<or> (\<exists>i<length ns. getIndex ns k = (int i, None) \<and> hashkey (ns ! i) = k)
   \<or> (\<exists>i<length ns. getIndex ns k = (int i, Some ErrNotFound) \<and> hashkey (ns ! i) \<noteq> k)"
  by (cases "ns = []") (auto simp: getIndex_def Let_def)

lemma getIndex_found:
  assumes "getIndex ns k = (i, None)"
  shows "0 \<le> i \<and> nat i < length ns \<and> hashkey (ns ! nat i) = k"
  using getIndex_cases[of ns k] assms by auto

lemma getIndex_present:
  assumes s: "sorted (map hashkey ns)" and m: "m < length ns" "hashkey (ns ! m) = k"
  shows "\<exists>i<length ns. getIndex ns k = (int i, None) \<and> hashkey (ns ! i) = k"
proof -
  have ne: "ns \<noteq> []" using m(1) by auto
  obtain i where i: "i < length ns" "fst (getIndex ns k) = int i" using getIndex_range[OF ne] by blast
  have ex: "\<exists>m<length ns. k \<le> hashkey (ns ! m)" using m by auto
  from getIndex_sorted[OF s ne i(2)] ex
  have a: "k \<le> hashkey (ns ! i)" "\<forall>m<i. hashkey (ns ! m) < k" by simp_all
  have "i \<le> m"
  proof (rule ccontr)
    assume "\<not> i \<le> m"
    then have "hashkey (ns ! m) < k" using a(2) by simp
    then show False using m(2) by simp
  qed
  from sorted_nth_mono[OF s this] m(1) have "map hashkey ns ! i \<le> map hashkey ns ! m" by simp
  then have "hashkey (ns ! i) \<le> k" using m i(1) by simp
  with a(1) have "hashkey (ns ! i) = k" by simp
  then show ?thesis using getIndex_cases[of ns k] i ne by auto
qed

lemma getIndex_found_iff:
  assumes "sorted (map hashkey ns)"
  shows "(snd (getIndex ns k) = None) = (k \<in> hashkey ` set ns)"
proof
  assume "snd (getIndex ns k) = None"
  then obtain i where "getIndex ns k = (i, None)" by (cases "getIndex ns k") auto
  from getIndex_found[OF this] have "ns ! nat i \<in> set ns" "hashkey (ns ! nat i) = k" by simp_all
  then show "k \<in> hashkey ` set ns" by force
next
  assume "k \<in> hashkey ` set ns"
  then obtain m where "m < length ns" "hashkey (ns ! m) = k" by (auto simp: in_set_conv_nth)
  from getIndex_present[OF assms this] show "snd (getIndex ns k) = None" by auto
qed

lemma ring_sorted_update:
  assumes "ring_sorted ns" "i < length ns" "hashkey n = hashkey (ns ! i)"
  shows "ring_sorted (ns[i := n])"
proof -
  have "map hashkey (ns[i := n]) = (map hashkey ns)[i := hashkey (ns ! i)]"
    using assms(3) by (simp add: map_update)
  also have "\<dots> = map hashkey ns" using assms(2) by (simp add: list_update_same_conv)
  finally show ?thesis using assms(1) by (simp add: ring_sorted_def)
qed

lemma ring_sorted_insert:
  assumes "ring_sorted ns" "hashkey n \<notin> hashkey ` set ns"
  shows "ring_sorted (sort_nodes (ns @ [n]))"
proof -
  have "mset (sort_nodes (ns @ [n])) = mset (ns @ [n])"
    by (simp add: sort_nodes_def)
  then have "image_mset hashkey (mset (sort_nodes (ns @ [n]))) = image_mset hashkey (mset (ns @ [n]))"
    by simp
  then have "mset (map hashkey (sort_nodes (ns @ [n]))) = mset (map hashkey (ns @ [n]))"
    unfolding mset_map .
  moreover have "distinct (map hashkey (ns @ [n]))" using assms by (auto simp: ring_sorted_def)
  ultimately have "distinct (map hashkey (sort_nodes (ns @ [n])))"
    by (metis mset_eq_imp_distinct_iff)
  moreover have "sorted (map hashkey (sort_nodes (ns @ [n])))" by (simp add: sort_nodes_def)
  ultimately show ?thesis by (simp add: ring_sorted_def)
qed

lemma strict_sorted_remove_nth:
  fixes xs :: "'a::linorder list"
  assumes "sorted_wrt (<) xs"
  shows "sorted_wrt (<) (take i xs @ drop (Suc i) xs)"
proof -
  have "sorted_wrt (<) (take i xs @ drop i xs)" using assms by simp
  then have a: "sorted_wrt (<) (take i xs)" "sorted_wrt (<) (drop i xs)"
    "\<forall>x\<in>set (take i xs). \<forall>y\<in>set (drop i xs). x < y"
    unfolding sorted_wrt_append by blast+
  have d: "drop (Suc i) xs = drop 1 (drop i xs)" by simp
  have b: "sorted_wrt (<) (drop (Suc i) xs)" unfolding d using a(2) by (rule sorted_wrt_drop)
  have c: "set (drop (Suc i) xs) \<subseteq> set (drop i xs)" unfolding d by (rule set_drop_subset)
  show ?thesis unfolding sorted_wrt_append using a(1) b a(3) c by blast
qed

lemma ring_sorted_remove:
  assumes "ring_sorted ns"
  shows "ring_sorted (take i ns @ drop (Suc i) ns)"
proof -
  have "sorted_wrt (<) (map hashkey ns)" using assms by (simp add: ring_sorted_def strict_sorted_iff)
  from strict_sorted_remove_nth[OF this, of i]
  show ?thesis by (simp add: ring_sorted_def strict_sorted_iff take_map drop_map)
qed

lemma Add_found:
  assumes "getIndex (hashnodes h) (Uid hp r) = (int i, None)"
  shows "Add now hp h r = (h\<lparr>hashnodes := (hashnodes h)[i := (hashnodes h ! i)\<lparr>lastUpdate := now\<rparr>]\<rparr>, Some ErrAlreadyPresent)"
  unfolding Add_def assms by simp

lemma Add_not_found:
  assumes "getIndex (hashnodes h) (Uid hp r) = (i, Some e)"
  shows "Add now hp h r = (h\<lparr>hashnodes := sort_nodes (hashnodes h @ [NewHashnode now (Uid hp r) r])\<rparr>, None)"
  unfolding Add_def assms by simp

lemma getIndex_not_found:
  assumes "sorted (map hashkey ns)" "getIndex ns k = (i, Some e)"
  shows "k \<notin> hashkey ` set ns"
  using getIndex_found_iff[OF assms(1), of k] assms(2) by simp

lemma Add_sorted:
  assumes "ring_sorted (hashnodes h)"
  shows "ring_sorted (hashnodes (fst (Add now hp h r)))"
proof (cases "getIndex (hashnodes h) (Uid hp r)")
  case (Pair i e)
  show ?thesis
  proof (cases e)
    case None
    from getIndex_found[OF Pair[unfolded None]]
    have i: "0 \<le> i" "nat i < length (hashnodes h)" by simp_all
    have g: "getIndex (hashnodes h) (Uid hp r) = (int (nat i), None)" using Pair None i by simp
    show ?thesis unfolding Add_found[OF g]
      using ring_sorted_update[OF assms i(2), of "(hashnodes h ! nat i)\<lparr>lastUpdate := now\<rparr>"] by simp
  next
    case (Some e')
    have "Uid hp r \<notin> hashkey ` set (hashnodes h)"
      using getIndex_not_found[OF _ Pair[unfolded Some]] assms by (simp add: ring_sorted_def)
    then have "hashkey (NewHashnode now (Uid hp r) r) \<notin> hashkey ` set (hashnodes h)"
      by (simp add: NewHashnode_def)
    from ring_sorted_insert[OF assms this]
    show ?thesis unfolding Add_not_found[OF Pair[unfolded Some]] by simp
  qed
qed

lemma AddOrUpdate_ring:
  "hashnodes (fst (snd (AddOrUpdate now later hp h r))) =
     (case getIndex (hashnodes h) (Uid hp r) of
        (i, None) \<Rightarrow> (hashnodes h)[nat i := (hashnodes h ! nat i)\<lparr>lastUpdate := now,
              elem := (if Oid hp (elem (hashnodes h ! nat i)) \<noteq> Oid hp r then r else elem (hashnodes h ! nat i))\<rparr>]
      | (i, Some e) \<Rightarrow> sort_nodes (hashnodes h @ [NewHashnode now (Uid hp r) r]))"
  unfolding AddOrUpdate_def
  by (auto simp: Let_def split: prod.splits option.splits sum.splits)

lemma AddOrUpdate_sorted:
  assumes "ring_sorted (hashnodes h)"
  shows "ring_sorted (hashnodes (fst (snd (AddOrUpdate now later hp h r))))"
proof (cases "getIndex (hashnodes h) (Uid hp r)")
  case (Pair i e)
  show ?thesis
  proof (cases e)
    case None
    from getIndex_found[OF Pair[unfolded None]]
    have i: "0 \<le> i" "nat i < length (hashnodes h)" by simp_all
    show ?thesis unfolding AddOrUpdate_ring Pair None
      using ring_sorted_update[OF assms i(2)] by simp
  next
    case (Some e')
    have "Uid hp r \<notin> hashkey ` set (hashnodes h)"
      using getIndex_not_found[OF _ Pair[unfolded Some]] assms by (simp add: ring_sorted_def)
    then have "hashkey (NewHashnode now (Uid hp r) r) \<notin> hashkey ` set (hashnodes h)"
      by (simp add: NewHashnode_def)
    from ring_sorted_insert[OF assms this]
    show ?thesis unfolding AddOrUpdate_ring Pair Some by simp
  qed
qed

lemma remove_in_visible:
  assumes "i < len" "len \<le> length arr"
  shows "take (len - 1) (take i arr @ drop (i + 1) (take len arr) @ drop (len - 1) arr)
         = take i (take len arr) @ drop (Suc i) (take len arr)"
proof -
  define A where "A = take i arr @ drop (i + 1) (take len arr)"
  have l: "length A = len - 1" using assms by (simp add: A_def)
  have "take (len - 1) (A @ drop (len - 1) arr) = A" using l by simp
  moreover have "take i arr = take i (take len arr)" using assms(1) by (simp add: min_def)
  ultimately show ?thesis by (simp add: A_def)
qed

lemma remove_in_found:
  assumes "getIndex (take len arr) (Uid hp r) = (int i, None)"
  shows "remove_in hp arr len r =
     ((take i arr @ drop (i + 1) (take len arr) @ drop (len - 1) arr, len - 1), None)"
  unfolding remove_in_def assms by simp

lemma remove_in_not_found:
  assumes "getIndex (take len arr) (Uid hp r) = (i, Some e)"
  shows "remove_in hp arr len r = ((arr, len), Some e)"
  unfolding remove_in_def assms by simp

lemma remove_ring:
  "hashnodes (fst (remove hp h r)) =
     (case getIndex (hashnodes h) (Uid hp r) of
        (i, None) \<Rightarrow> take (nat i) (hashnodes h) @ drop (Suc (nat i)) (hashnodes h)
      | (i, Some e) \<Rightarrow> hashnodes h)"
proof (cases "getIndex (hashnodes h) (Uid hp r)")
  case (Pair i e)
  show ?thesis
  proof (cases e)
    case None
    from getIndex_found[OF Pair[unfolded None]]
    have i: "0 \<le> i" "nat i < length (hashnodes h)" by simp_all
    have g: "getIndex (take (length (hashnodes h)) (hashnodes h)) (Uid hp r) = (int (nat i), None)"
      using Pair None i by simp
    show ?thesis unfolding remove_def remove_in_found[OF g]
      using remove_in_visible[OF i(2) le_refl] Pair None by simp
  next
    case (Some e')
    have g: "getIndex (take (length (hashnodes h)) (hashnodes h)) (Uid hp r) = (i, Some e')"
      using Pair Some by simp
    show ?thesis unfolding remove_def remove_in_not_found[OF g] using Pair Some by simp
  qed
qed

lemma Remove_sorted:
  assumes "ring_sorted (hashnodes h)"
  shows "ring_sorted (hashnodes (fst (Remove hp h r)))"
  unfolding Remove_def remove_ring
  using assms ring_sorted_remove[OF assms] by (auto split: prod.splits option.splits)

lemma set_sort_nodes: "set (sort_nodes ns) = set ns"
  by (simp add: sort_nodes_def)

lemma SetLastPassed_Uid:
  assumes "SetLastPassed hp r t = Inr hp'"
  shows "Uid hp' x = Uid hp x"
  using assms unfolding SetLastPassed_def Uid_def
  by (auto split: ResourceImpl.splits option.splits)

lemma AddOrUpdate_heap_Uid: "Uid (fst (AddOrUpdate now later hp h r)) x = Uid hp x"
proof -
  have "fst (AddOrUpdate now later hp h r) = hp \<or> SetLastPassed hp r later = Inr (fst (AddOrUpdate now later hp h r))"
    unfolding AddOrUpdate_def
    by (auto simp: Let_def split: prod.splits option.splits sum.splits)
  then show ?thesis using SetLastPassed_Uid by auto
qed

lemma keys_match_update:
  assumes "keys_match hp ns" "hashkey n = Uid hp (elem n)"
  shows "keys_match hp (ns[i := n])"
proof -
  have "set (ns[i := n]) \<subseteq> insert n (set ns)" by (rule set_update_subset_insert)
  then show ?thesis using assms unfolding keys_match_def by blast
qed

lemma Add_keys_match:
  assumes "keys_match hp (hashnodes h)"
  shows "keys_match hp (hashnodes (fst (Add now hp h r)))"
proof (cases "getIndex (hashnodes h) (Uid hp r)")
  case (Pair i e)
  show ?thesis
  proof (cases e)
    case None
    from getIndex_found[OF Pair[unfolded None]]
    have i: "0 \<le> i" "nat i < length (hashnodes h)" by simp_all
    have g: "getIndex (hashnodes h) (Uid hp r) = (int (nat i), None)" using Pair None i by simp
    have "hashkey (hashnodes h ! nat i) = Uid hp (elem (hashnodes h ! nat i))"
      using assms i(2) by (simp add: keys_match_def)
    then show ?thesis unfolding Add_found[OF g]
      using keys_match_update[OF assms, of "(hashnodes h ! nat i)\<lparr>lastUpdate := now\<rparr>" "nat i"] by simp
  next
    case (Some e')
    show ?thesis unfolding Add_not_found[OF Pair[unfolded Some]]
      using assms by (simp add: keys_match_def set_sort_nodes NewHashnode_def)
  qed
qed

lemma AddOrUpdate_keys_match:
  assumes "keys_match hp (hashnodes h)"
  shows "keys_match (fst (AddOrUpdate now later hp h r)) (hashnodes (fst (snd (AddOrUpdate now later hp h r))))"
proof -
  have "keys_match hp (hashnodes (fst (snd (AddOrUpdate now later hp h r))))"
  proof (cases "getIndex (hashnodes h) (Uid hp r)")
    case (Pair i e)
    show ?thesis
    proof (cases e)
      case None
      from getIndex_found[OF Pair[unfolded None]]
      have i: "0 \<le> i" "nat i < length (hashnodes h)" "hashkey (hashnodes h ! nat i) = Uid hp r" by simp_all
      have "hashkey (hashnodes h ! nat i) = Uid hp (elem (hashnodes h ! nat i))"
        using assms i(2) by (simp add: keys_match_def)
      then show ?thesis unfolding AddOrUpdate_ring Pair None
        using i(3) by (auto intro!: keys_match_update[OF assms])
    next
      case (Some e')
      show ?thesis unfolding AddOrUpdate_ring Pair Some
        using assms by (simp add: keys_match_def set_sort_nodes NewHashnode_def)
    qed
  qed
  then show ?thesis unfolding keys_match_def AddOrUpdate_heap_Uid .
qed

lemma Remove_keys_match:
  assumes "keys_match hp (hashnodes h)"
  shows "keys_match hp (hashnodes (fst (Remove hp h r)))"
  unfolding Remove_def remove_ring
  using assms by (auto simp: keys_match_def split: prod.splits option.splits dest: in_set_takeD in_set_dropD)

lemma run_ops_inv:
  assumes "ring_sorted (hashnodes (snd s))" "keys_match (fst s) (hashnodes (snd s))"
  shows "ring_sorted (hashnodes (snd (foldl apply_op s ops)))
         \<and> keys_match (fst (foldl apply_op s ops)) (hashnodes (snd (foldl apply_op s ops)))"
  using assms
proof (induction ops arbitrary: s)
  case Nil
  then show ?case by simp
next
  case (Cons a ops)
  obtain hp0 h0 where s: "s = (hp0, h0)" by (cases s)
  obtain now o' where a: "a = (now, o')" by (cases a)
  have p: "ring_sorted (hashnodes h0)" "keys_match hp0 (hashnodes h0)" using Cons.prems by (simp_all add: s)
  have "ring_sorted (hashnodes (snd (apply_op s a)))
        \<and> keys_match (fst (apply_op s a)) (hashnodes (snd (apply_op s a)))"
  proof (cases o')
    case (OpAdd r)
    then show ?thesis using Add_sorted[OF p(1), of now hp0 r] Add_keys_match[OF p(2), of now r]
      by (simp add: s a)
  next
    case (OpAddOrUpdate r later)
    then show ?thesis
      using AddOrUpdate_sorted[OF p(1), of now later hp0 r]
        AddOrUpdate_keys_match[OF p(2), of now later r]
      by (cases "AddOrUpdate now later hp0 h0 r") (simp add: s a)
  next
    case (OpRemove r)
    then show ?thesis using Remove_sorted[OF p(1), of hp0 r] Remove_keys_match[OF p(2), of r]
      by (simp add: s a)
  qed
  then show ?case using Cons.IH[of "apply_op s a"] by simp
qed

text \<open>
  Claim C7.  After any sequence of \<open>Add\<close>, \<open>AddOrUpdate\<close> and \<open>Remove\<close> from the empty
  ring, the hash keys of the nodes ascend, no two nodes share a hash key, and the hash key
  of every node is the UID of its element.
\<close>

theorem ring_order_invariant:
  "sorted (map hashkey (hashnodes (snd (run_ops hp ops))))
   \<and> distinct (map hashkey (hashnodes (snd (run_ops hp ops))))
   \<and> map hashkey (hashnodes (snd (run_ops hp ops)))
       = map (\<lambda>n. Uid (fst (run_ops hp ops)) (elem n)) (hashnodes (snd (run_ops hp ops)))"
proof -
  have "ring_sorted (hashnodes (snd (hp, NewHashring)))"
    "keys_match (fst (hp, NewHashring)) (hashnodes (snd (hp, NewHashring)))"
    by (simp_all add: NewHashring_def ring_sorted_def keys_match_def)
  from run_ops_inv[OF this, of ops]
  show ?thesis unfolding run_ops_def ring_sorted_def keys_match_def by simp
qed

lemma count_distinct_one:
  "distinct xs \<Longrightarrow> x \<in> set xs \<Longrightarrow> length (filter (\<lambda>y. y = x) xs) = 1"
proof (induction xs)
  case Nil then show ?case by simp
next
  case (Cons a xs)
  show ?case
  proof (cases "a = x")
    case True
    then have "x \<notin> set xs" using Cons.prems(1) by simp
    then have "filter (\<lambda>y. y = x) xs = []" by (auto simp: filter_empty_conv)
    then show ?thesis using True by simp
  next
    case False
    then show ?thesis using Cons by simp
  qed
qed

lemma count_key_one:
  assumes "ring_sorted ns" "k \<in> hashkey ` set ns"
  shows "length (filter (\<lambda>n. hashkey n = k) ns) = 1"
proof -
  have "length (filter (\<lambda>n. hashkey n = k) ns) = length (filter (\<lambda>y. y = k) (map hashkey ns))"
    by (simp add: filter_map comp_def)
  also have "\<dots> = 1" using assms by (intro count_distinct_one) (simp_all add: ring_sorted_def)
  finally show ?thesis .
qed

lemma Add_present:
  assumes "sorted (map hashkey (hashnodes h))" "Uid hp r \<in> hashkey ` set (hashnodes h)"
  shows "\<exists>i<length (hashnodes h). hashkey (hashnodes h ! i) = Uid hp r
      \<and> Add now hp h r = (h\<lparr>hashnodes := (hashnodes h)[i := (hashnodes h ! i)\<lparr>lastUpdate := now\<rparr>]\<rparr>,
                           Some ErrAlreadyPresent)"
proof -
  from assms(2) obtain m where "m < length (hashnodes h)" "hashkey (hashnodes h ! m) = Uid hp r"
    by (auto simp: in_set_conv_nth)
  from getIndex_present[OF assms(1) this]
  obtain i where i: "i < length (hashnodes h)" "getIndex (hashnodes h) (Uid hp r) = (int i, None)"
    "hashkey (hashnodes h ! i) = Uid hp r" by blast
  show ?thesis using i(1,3) Add_found[OF i(2)] by blast
qed

lemma Add_key_present:
  "Uid hp r \<in> hashkey ` set (hashnodes (fst (Add now hp h r)))"
proof (cases "getIndex (hashnodes h) (Uid hp r)")
  case (Pair i e)
  show ?thesis
  proof (cases e)
    case None
    from getIndex_found[OF Pair[unfolded None]]
    have i: "0 \<le> i" "nat i < length (hashnodes h)" "hashkey (hashnodes h ! nat i) = Uid hp r" by simp_all
    have g: "getIndex (hashnodes h) (Uid hp r) = (int (nat i), None)" using Pair None i by simp
    let ?n = "(hashnodes h ! nat i)\<lparr>lastUpdate := now\<rparr>"
    have "?n \<in> set ((hashnodes h)[nat i := ?n])" using i(2) by (simp add: set_update_memI)
    moreover have "hashkey ?n = Uid hp r" using i(3) by simp
    ultimately show ?thesis unfolding Add_found[OF g] by force
  next
    case (Some e')
    show ?thesis unfolding Add_not_found[OF Pair[unfolded Some]]
      by (simp add: set_sort_nodes NewHashnode_def)
  qed
qed

text \<open>
  Claim C9.  On a ring in ring order that holds a node with the UID of \<open>r\<close>, \<open>Add r\<close> sets
  the \<open>lastUpdate\<close> of that node to now, changes nothing else in the ring (the stored
  element stays, \<open>r\<close> is not written in), and returns the error "already present".  So
  the second of two calls \<open>Add r\<close> returns that error, and after the two calls exactly one
  node has the UID of \<open>r\<close>.
\<close>

theorem Add_already_present:
  assumes "ring_sorted (hashnodes h)"
  shows "(Uid hp r \<in> hashkey ` set (hashnodes h) \<longrightarrow>
           (\<exists>i<length (hashnodes h). hashkey (hashnodes h ! i) = Uid hp r
              \<and> Add now hp h r =
                  (h\<lparr>hashnodes := (hashnodes h)[i := (hashnodes h ! i)\<lparr>lastUpdate := now\<rparr>]\<rparr>,
                   Some ErrAlreadyPresent)))
       \<and> snd (Add now' hp (fst (Add now hp h r)) r) = Some ErrAlreadyPresent
       \<and> length (filter (\<lambda>n. hashkey n = Uid hp r)
                   (hashnodes (fst (Add now' hp (fst (Add now hp h r)) r)))) = 1"
proof (intro conjI impI)
  assume "Uid hp r \<in> hashkey ` set (hashnodes h)"
  then show "\<exists>i<length (hashnodes h). hashkey (hashnodes h ! i) = Uid hp r
              \<and> Add now hp h r =
                  (h\<lparr>hashnodes := (hashnodes h)[i := (hashnodes h ! i)\<lparr>lastUpdate := now\<rparr>]\<rparr>,
                   Some ErrAlreadyPresent)"
    using Add_present assms by (simp add: ring_sorted_def)
next
  define h1 where "h1 = fst (Add now hp h r)"
  have s1: "ring_sorted (hashnodes h1)" unfolding h1_def by (rule Add_sorted[OF assms])
  have k1: "Uid hp r \<in> hashkey ` set (hashnodes h1)" unfolding h1_def by (rule Add_key_present)
  from s1 have "sorted (map hashkey (hashnodes h1))" by (simp add: ring_sorted_def)
  from Add_present[OF this k1, of now']
  show "snd (Add now' hp (fst (Add now hp h r)) r) = Some ErrAlreadyPresent"
    unfolding h1_def by auto
  show "length (filter (\<lambda>n. hashkey n = Uid hp r)
                   (hashnodes (fst (Add now' hp (fst (Add now hp h r)) r)))) = 1"
    by (rule count_key_one[OF Add_sorted[OF Add_sorted[OF assms]] Add_key_present])
qed

theorem Add_already_present_witness:
  "ring_sorted (hashnodes (ring3 0 0 0)) \<and> Uid hp3 2 \<in> hashkey ` set (hashnodes (ring3 0 0 0))
   \<and> Add 7 hp3 (ring3 0 0 0) 2 = (ring3 0 7 0, Some ErrAlreadyPresent)
   \<and> fst (Add 9 hp3 (fst (Add 7 hp3 (ring3 0 0 0) 2)) 2) = ring3 0 9 0"
proof -
  have a: "ring_sorted (hashnodes (ring3 0 0 0))" by (simp add: ring_sorted_def ring3_def)
  have b: "Uid hp3 2 \<in> hashkey ` set (hashnodes (ring3 0 0 0))" by (simp add: ring3_def Uid_def hp3_def)
  from Add_already_present[OF a, of hp3 2 7 9] b
  obtain i where i: "i < length (hashnodes (ring3 0 0 0))" "hashkey (hashnodes (ring3 0 0 0) ! i) = Uid hp3 2"
    "Add 7 hp3 (ring3 0 0 0) 2 = ((ring3 0 0 0)\<lparr>hashnodes := (hashnodes (ring3 0 0 0))[i := (hashnodes (ring3 0 0 0) ! i)\<lparr>lastUpdate := 7\<rparr>]\<rparr>, Some ErrAlreadyPresent)"
    by blast
  from i(1) have "i = 0 \<or> i = 1 \<or> i = 2" by (auto simp: ring3_def)
  with i(2) have "i = 1" by (auto simp: ring3_def Uid_def hp3_def)
  with i(3) have c: "Add 7 hp3 (ring3 0 0 0) 2 = (ring3 0 7 0, Some ErrAlreadyPresent)" by (simp add: ring3_def)
  have d: "fst (Add 9 hp3 (fst (Add 7 hp3 (ring3 0 0 0) 2)) 2) = ring3 0 9 0"
    unfolding c by code_simp
  show ?thesis using a b c d by blast
qed

text \<open>
  Claim C3.  \<open>Prune\<close> is to remove exactly the nodes whose last update is older than the
  expiry of their resource and to return the removed resources.  The code does not: on
  the ring of the resources 1, 2, 3, all expired at time 100, it leaves the node of 2 in the
  ring and returns 3 twice; when only 1 and 2 are expired it removes 1 alone.  The loop
  ranges over the slice that \<open>remove\<close> shifts under it, so the node after a removed one is
  skipped and the stale last cell is read again.
\<close>

theorem Prune_skips_and_repeats:
  "time_Sub 100 0 > Expiry hp3 1 \<and> time_Sub 100 0 > Expiry hp3 2 \<and> time_Sub 100 0 > Expiry hp3 3
   \<and> \<not> time_Sub 100 95 > Expiry hp3 3
   \<and> Prune 100 hp3 (ring3 0 0 0) = (\<lparr>hashnodes = [\<lparr>hashkey = 2, elem = 2, lastUpdate = 0\<rparr>]\<rparr>, [1, 3, 3])
   \<and> Prune 100 hp3 (ring3 0 0 95)
        = (\<lparr>hashnodes = [\<lparr>hashkey = 2, elem = 2, lastUpdate = 0\<rparr>, \<lparr>hashkey = 3, elem = 3, lastUpdate = 95\<rparr>]\<rparr>, [1])"
  by code_simp

lemma sort_key_snoc:
  assumes "f x \<notin> f ` set xs"
  shows "foldr (insort_key f) xs [x] = insort_key f x (sort_key f xs)"
  using assms
proof (induction xs)
  case Nil
  then show ?case by simp
next
  case (Cons a xs)
  then have ne: "f a \<noteq> f x" by auto
  have "foldr (insort_key f) (a # xs) [x] = insort_key f a (insort_key f x (sort_key f xs))"
    using Cons by simp
  also have "\<dots> = insort_key f x (insort_key f a (sort_key f xs))"
    using ne by (simp add: insort_key_left_comm)
  finally show ?case by simp
qed

lemma sort_nodes_snoc:
  assumes "sorted (map hashkey ns)" "hashkey n \<notin> hashkey ` set ns"
  shows "sort_nodes (ns @ [n]) = insort_key hashkey n ns"
proof -
  have "sort_nodes (ns @ [n]) = foldr (insort_key hashkey) ns [n]"
    by (simp add: sort_nodes_def sort_key_def)
  also have "\<dots> = insort_key hashkey n (sort_key hashkey ns)" by (rule sort_key_snoc[OF assms(2)])
  also have "sort_key hashkey ns = ns" using assms(1) by (rule sort_key_id_if_sorted)
  finally show ?thesis .
qed

lemma AddOrUpdate_not_found:
  assumes "getIndex (hashnodes h) (Uid hp r) = (i, Some e)"
  shows "AddOrUpdate now later hp h r =
     (hp, h\<lparr>hashnodes := sort_nodes (hashnodes h @ [NewHashnode now (Uid hp r) r])\<rparr>, Inr ResourceIsNew)"
  unfolding AddOrUpdate_def assms by simp

lemma AddOrUpdate_found:
  assumes "getIndex (hashnodes h) (Uid hp r) = (int i, None)"
  shows "AddOrUpdate now later hp h r =
     (let changed = (Oid hp (elem (hashnodes h ! i)) \<noteq> Oid hp r);
          kept = (if changed then r else elem (hashnodes h ! i));
          event = (if changed then ResourceChanged else ResourceUnchanged);
          h' = h\<lparr>hashnodes := (hashnodes h)[i := (hashnodes h ! i)\<lparr>lastUpdate := now, elem := kept\<rparr>]\<rparr>
      in case TestResult hp kept of
           None \<Rightarrow> (hp, h', Inl NilDereference)
         | Some t \<Rightarrow>
             if State t = StateDysfunctional \<or> Speed t = SpeedRejected then (hp, h', Inr ResourceIsGone)
             else if State t = StateFunctional \<and> Speed t = SpeedAccepted
             then (case SetLastPassed hp r later of
                     Inl p \<Rightarrow> (hp, h', Inl p)
                   | Inr hp' \<Rightarrow> (hp', h', Inr event))
             else (hp, h', Inr event))"
  unfolding AddOrUpdate_def assms Let_def prod.case option.case nat_int
  by (simp split: option.splits sum.splits)

text \<open>
  Claim C2, amended.  On a ring in ring order: when no node has the UID of \<open>r\<close>,
  \<open>AddOrUpdate r\<close> inserts a node for \<open>r\<close> in sorted order and returns \<open>ResourceIsNew\<close>,
  whatever the test result of \<open>r\<close>, and writes to no resource.  When a node has the UID, its
  timestamp is set to the clock and its element is replaced by \<open>r\<close> exactly when the OIDs
  differ.  Let \<open>t\<close> be the test result of the element the node then holds.  When \<open>t\<close> is
  Dysfunctional or its speed Rejected, the event is \<open>ResourceIsGone\<close>.  When \<open>t\<close> is neither
  that nor Functional with Accepted speed, the event is \<open>ResourceChanged\<close> after a replacement
  and \<open>ResourceUnchanged\<close> without one.  When \<open>t\<close> is Functional with Accepted speed and the
  node then holds \<open>r\<close> itself, the event is the same and the \<open>last_passed\<close> of \<open>r\<close> is set to
  the clock (for a resource built on \<open>ResourceBase\<close>; a \<open>Dummy\<close> has no such field).  When
  it is Functional with Accepted speed and the node keeps another object than \<open>r\<close>, the
  event is \<open>ResourceUnchanged\<close> provided \<open>r\<close> carries a test result; of \<open>last_passed\<close> nothing
  is stated in that case.
\<close>

theorem AddOrUpdate_events:
  assumes "ring_sorted (hashnodes h)"
  shows
  "(Uid hp r \<notin> hashkey ` set (hashnodes h) \<longrightarrow>
      AddOrUpdate now later hp h r =
        (hp, h\<lparr>hashnodes := insort_key hashkey (NewHashnode now (Uid hp r) r) (hashnodes h)\<rparr>,
         Inr ResourceIsNew))
   \<and> (Uid hp r \<in> hashkey ` set (hashnodes h) \<longrightarrow>
      (\<exists>i<length (hashnodes h). hashkey (hashnodes h ! i) = Uid hp r \<and>
         (let stored = elem (hashnodes h ! i);
              changed = (Oid hp stored \<noteq> Oid hp r);
              kept = (if changed then r else stored);
              event = (if changed then ResourceChanged else ResourceUnchanged);
              h' = h\<lparr>hashnodes := (hashnodes h)[i := (hashnodes h ! i)\<lparr>lastUpdate := now, elem := kept\<rparr>]\<rparr>
          in fst (snd (AddOrUpdate now later hp h r)) = h'
             \<and> (case TestResult hp kept of
                   None \<Rightarrow> AddOrUpdate now later hp h r = (hp, h', Inl NilDereference)
                 | Some t \<Rightarrow>
                     (State t = StateDysfunctional \<or> Speed t = SpeedRejected \<longrightarrow>
                        AddOrUpdate now later hp h r = (hp, h', Inr ResourceIsGone))
                     \<and> (State t \<noteq> StateDysfunctional \<and> Speed t \<noteq> SpeedRejected
                          \<and> \<not> (State t = StateFunctional \<and> Speed t = SpeedAccepted) \<longrightarrow>
                        AddOrUpdate now later hp h r = (hp, h', Inr event))
                     \<and> (State t = StateFunctional \<and> Speed t = SpeedAccepted \<and> kept = r \<longrightarrow>
                        AddOrUpdate now later hp h r =
                          ((case Impl (hp r) of
                              Dummy \<Rightarrow> hp
                            | Base \<Rightarrow> hp(r := (hp r)\<lparr>Test := Some (t\<lparr>LastPassed := later\<rparr>)\<rparr>)),
                           h', Inr event))
                     \<and> (State t = StateFunctional \<and> Speed t = SpeedAccepted \<and> kept \<noteq> r
                          \<and> TestResult hp r \<noteq> None \<longrightarrow>
                        snd (snd (AddOrUpdate now later hp h r)) = Inr ResourceUnchanged)))))"
proof (intro conjI impI)
  assume a: "Uid hp r \<notin> hashkey ` set (hashnodes h)"
  have s: "sorted (map hashkey (hashnodes h))" using assms by (simp add: ring_sorted_def)
  obtain i e where g: "getIndex (hashnodes h) (Uid hp r) = (i, e)" by (cases "getIndex (hashnodes h) (Uid hp r)")
  have "e \<noteq> None" using getIndex_found_iff[OF s, of "Uid hp r"] a g by auto
  then obtain e' where e: "e = Some e'" by auto
  have "hashkey (NewHashnode now (Uid hp r) r) \<notin> hashkey ` set (hashnodes h)"
    using a by (simp add: NewHashnode_def)
  from sort_nodes_snoc[OF s this]
  show "AddOrUpdate now later hp h r =
        (hp, h\<lparr>hashnodes := insort_key hashkey (NewHashnode now (Uid hp r) r) (hashnodes h)\<rparr>,
         Inr ResourceIsNew)"
    unfolding AddOrUpdate_not_found[OF g[unfolded e]] by simp
next
  assume a: "Uid hp r \<in> hashkey ` set (hashnodes h)"
  have s: "sorted (map hashkey (hashnodes h))" using assms by (simp add: ring_sorted_def)
  from a obtain m where "m < length (hashnodes h)" "hashkey (hashnodes h ! m) = Uid hp r"
    by (auto simp: in_set_conv_nth)
  from getIndex_present[OF s this]
  obtain i where i: "i < length (hashnodes h)" "getIndex (hashnodes h) (Uid hp r) = (int i, None)"
    "hashkey (hashnodes h ! i) = Uid hp r" by blast
  have c: "StateDysfunctional \<noteq> StateFunctional" "SpeedRejected \<noteq> SpeedAccepted"
    by (simp_all add: StateDysfunctional_def StateFunctional_def SpeedRejected_def SpeedAccepted_def)
  define kept where "kept = (if Oid hp (elem (hashnodes h ! i)) \<noteq> Oid hp r then r else elem (hashnodes h ! i))"
  define event where "event = (if Oid hp (elem (hashnodes h ! i)) \<noteq> Oid hp r then ResourceChanged else ResourceUnchanged)"
  define h' where "h' = h\<lparr>hashnodes := (hashnodes h)[i := (hashnodes h ! i)\<lparr>lastUpdate := now, elem := kept\<rparr>]\<rparr>"
  have A: "AddOrUpdate now later hp h r =
       (case TestResult hp kept of
           None \<Rightarrow> (hp, h', Inl NilDereference)
         | Some t \<Rightarrow>
             if State t = StateDysfunctional \<or> Speed t = SpeedRejected then (hp, h', Inr ResourceIsGone)
             else if State t = StateFunctional \<and> Speed t = SpeedAccepted
             then (case SetLastPassed hp r later of
                     Inl p \<Rightarrow> (hp, h', Inl p)
                   | Inr hp' \<Rightarrow> (hp', h', Inr event))
             else (hp, h', Inr event))"
    unfolding AddOrUpdate_found[OF i(2)] Let_def kept_def event_def h'_def ..
  have ring: "fst (snd (AddOrUpdate now later hp h r)) = h'"
    unfolding A by (simp split: option.splits sum.splits)
  have ev: "kept \<noteq> r \<Longrightarrow> event = ResourceUnchanged"
    unfolding kept_def event_def by (simp split: if_splits)
  have B: "case TestResult hp kept of
             None \<Rightarrow> AddOrUpdate now later hp h r = (hp, h', Inl NilDereference)
           | Some t \<Rightarrow>
               (State t = StateDysfunctional \<or> Speed t = SpeedRejected \<longrightarrow>
                  AddOrUpdate now later hp h r = (hp, h', Inr ResourceIsGone))
               \<and> (State t \<noteq> StateDysfunctional \<and> Speed t \<noteq> SpeedRejected
                    \<and> \<not> (State t = StateFunctional \<and> Speed t = SpeedAccepted) \<longrightarrow>
                  AddOrUpdate now later hp h r = (hp, h', Inr event))
               \<and> (State t = StateFunctional \<and> Speed t = SpeedAccepted \<and> kept = r \<longrightarrow>
                  AddOrUpdate now later hp h r =
                    ((case Impl (hp r) of
                        Dummy \<Rightarrow> hp
                      | Base \<Rightarrow> hp(r := (hp r)\<lparr>Test := Some (t\<lparr>LastPassed := later\<rparr>)\<rparr>)),
                     h', Inr event))
               \<and> (State t = StateFunctional \<and> Speed t = SpeedAccepted \<and> kept \<noteq> r
                    \<and> TestResult hp r \<noteq> None \<longrightarrow>
                  snd (snd (AddOrUpdate now later hp h r)) = Inr ResourceUnchanged)"
  proof (cases "TestResult hp kept")
    case None
    then show ?thesis using A by simp
  next
    case (Some t)
    show ?thesis
    proof (cases "State t = StateDysfunctional \<or> Speed t = SpeedRejected")
      case True
      then have "\<not> (State t = StateFunctional \<and> Speed t = SpeedAccepted)" using c by auto
      then show ?thesis using A Some True by auto
    next
      case nf: False
      show ?thesis
      proof (cases "State t = StateFunctional \<and> Speed t = SpeedAccepted")
        case False
        then show ?thesis using A Some nf by auto
      next
        case True
        have A': "AddOrUpdate now later hp h r =
           (case SetLastPassed hp r later of
                   Inl p \<Rightarrow> (hp, h', Inl p)
                 | Inr hp' \<Rightarrow> (hp', h', Inr event))" using A Some nf True by simp
        have same: "kept = r \<Longrightarrow> AddOrUpdate now later hp h r =
                    ((case Impl (hp r) of
                        Dummy \<Rightarrow> hp
                      | Base \<Rightarrow> hp(r := (hp r)\<lparr>Test := Some (t\<lparr>LastPassed := later\<rparr>)\<rparr>)),
                     h', Inr event)"
        proof -
          assume "kept = r"
          then have "Test (hp r) = Some t" using Some by (simp add: TestResult_def)
          then show ?thesis unfolding A'
            by (simp add: SetLastPassed_def split: ResourceImpl.splits)
        qed
        have other: "kept \<noteq> r \<Longrightarrow> TestResult hp r \<noteq> None \<Longrightarrow>
                     snd (snd (AddOrUpdate now later hp h r)) = Inr ResourceUnchanged"
        proof -
          assume k: "kept \<noteq> r" and "TestResult hp r \<noteq> None"
          then obtain tr where "Test (hp r) = Some tr" by (auto simp: TestResult_def)
          then show ?thesis unfolding A' using ev[OF k]
            by (simp add: SetLastPassed_def split: ResourceImpl.splits)
        qed
        show ?thesis unfolding Some option.case using nf True same other by blast
      qed
    qed
  qed
  show "\<exists>i<length (hashnodes h). hashkey (hashnodes h ! i) = Uid hp r \<and>
         (let stored = elem (hashnodes h ! i);
              changed = (Oid hp stored \<noteq> Oid hp r);
              kept = (if changed then r else stored);
              event = (if changed then ResourceChanged else ResourceUnchanged);
              h' = h\<lparr>hashnodes := (hashnodes h)[i := (hashnodes h ! i)\<lparr>lastUpdate := now, elem := kept\<rparr>]\<rparr>
          in fst (snd (AddOrUpdate now later hp h r)) = h'
             \<and> (case TestResult hp kept of
                   None \<Rightarrow> AddOrUpdate now later hp h r = (hp, h', Inl NilDereference)
                 | Some t \<Rightarrow>
                     (State t = StateDysfunctional \<or> Speed t = SpeedRejected \<longrightarrow>
                        AddOrUpdate now later hp h r = (hp, h', Inr ResourceIsGone))
                     \<and> (State t \<noteq> StateDysfunctional \<and> Speed t \<noteq> SpeedRejected
                          \<and> \<not> (State t = StateFunctional \<and> Speed t = SpeedAccepted) \<longrightarrow>
                        AddOrUpdate now later hp h r = (hp, h', Inr event))
                     \<and> (State t = StateFunctional \<and> Speed t = SpeedAccepted \<and> kept = r \<longrightarrow>
                        AddOrUpdate now later hp h r =
                          ((case Impl (hp r) of
                              Dummy \<Rightarrow> hp
                            | Base \<Rightarrow> hp(r := (hp r)\<lparr>Test := Some (t\<lparr>LastPassed := later\<rparr>)\<rparr>)),
                           h', Inr event))
                     \<and> (State t = StateFunctional \<and> Speed t = SpeedAccepted \<and> kept \<noteq> r
                          \<and> TestResult hp r \<noteq> None \<longrightarrow>
                        snd (snd (AddOrUpdate now later hp h r)) = Inr ResourceUnchanged)))"
    apply (rule exI[of _ i])
    apply (intro conjI)
      apply (rule i(1))
     apply (rule i(3))
    unfolding Let_def kept_def[symmetric] event_def[symmetric] h'_def[symmetric]
    using ring B by blast
qed

theorem AddOrUpdate_events_witness:
  "ring_sorted (hashnodes (ring3 0 0 0))
   \<and> Uid (hp_tested StateFunctional SpeedAccepted) 2 \<in> hashkey ` set (hashnodes (ring3 0 0 0))
   \<and> AddOrUpdate 7 8 (hp_tested StateFunctional SpeedAccepted) (ring3 0 0 0) 2 =
       ((hp_tested StateFunctional SpeedAccepted)
          (2 := (hp_tested StateFunctional SpeedAccepted 2)
                  \<lparr>Test := Some \<lparr>State = StateFunctional, Speed = SpeedAccepted, Ratio = None,
                                 LastTested = 0, LastPassed = 8, Error = []\<rparr>\<rparr>),
        ring3 0 7 0, Inr ResourceUnchanged)"
proof -
  define hp where "hp = hp_tested StateFunctional SpeedAccepted"
  have a: "ring_sorted (hashnodes (ring3 0 0 0))" by (simp add: ring_sorted_def ring3_def)
  have b: "Uid hp 2 \<in> hashkey ` set (hashnodes (ring3 0 0 0))"
    by (simp add: ring3_def Uid_def hp_def hp_tested_def)
  note e = AddOrUpdate_events[OF a, of hp 2 7 8, THEN conjunct2, rule_format, OF b, unfolded Let_def]
  have one: "i = 1" if "i < length (hashnodes (ring3 0 0 0))"
    "hashkey (hashnodes (ring3 0 0 0) ! i) = Uid hp 2" for i
  proof -
    from that(1) have "i = 0 \<or> i = 1 \<or> i = 2" by (auto simp: ring3_def)
    with that(2) show ?thesis by (auto simp: ring3_def Uid_def hp_def hp_tested_def)
  qed
  have c: "AddOrUpdate 7 8 hp (ring3 0 0 0) 2 =
       (hp(2 := (hp 2)\<lparr>Test := Some \<lparr>State = StateFunctional, Speed = SpeedAccepted, Ratio = None,
                                 LastTested = 0, LastPassed = 8, Error = []\<rparr>\<rparr>),
        ring3 0 7 0, Inr ResourceUnchanged)"
    using e
    apply (elim exE conjE)
    subgoal for i
      apply (frule (1) one)
      apply (simp add: ring3_def Oid_def TestResult_def hp_def hp_tested_def
          StateFunctional_def StateDysfunctional_def SpeedAccepted_def SpeedRejected_def)
      done
    done
  show ?thesis using a b c unfolding hp_def by blast
qed

lemma AddOrUpdate_empty:
  "AddOrUpdate now later hp NewHashring r =
     (hp, \<lparr>hashnodes = [\<lparr>hashkey = Uid hp r, elem = r, lastUpdate = now\<rparr>]\<rparr>, Inr ResourceIsNew)"
proof -
  have g: "getIndex (hashnodes NewHashring) (Uid hp r) = (- 1, Some ErrEmpty)"
    by (simp add: getIndex_def NewHashring_def)
  show ?thesis unfolding AddOrUpdate_not_found[OF g]
    by (simp add: NewHashring_def sort_nodes_def NewHashnode_def)
qed

text \<open>
  The claim C2 as stated fails for a new resource: added to the empty ring, a resource that
  is Dysfunctional with Rejected speed comes back as \<open>ResourceIsNew\<close>, not \<open>ResourceIsGone\<close>, and
  a resource that is Functional with Accepted speed keeps its \<open>last_passed\<close> (the heap is
  unchanged): the upgrade and the stamp are in the branch of a UID that is present.
\<close>

theorem AddOrUpdate_new_failing_counterexample:
  "TestResult (hp_tested StateDysfunctional SpeedRejected) 1
     = Some \<lparr>State = StateDysfunctional, Speed = SpeedRejected, Ratio = None,
              LastTested = 0, LastPassed = 0, Error = []\<rparr>
   \<and> AddOrUpdate 5 6 (hp_tested StateDysfunctional SpeedRejected) NewHashring 1
     = (hp_tested StateDysfunctional SpeedRejected,
        \<lparr>hashnodes = [\<lparr>hashkey = 1, elem = 1, lastUpdate = 5\<rparr>]\<rparr>, Inr ResourceIsNew)
   \<and> ResourceIsNew \<noteq> ResourceIsGone
   \<and> TestResult (hp_tested StateFunctional SpeedAccepted) 1
     = Some \<lparr>State = StateFunctional, Speed = SpeedAccepted, Ratio = None,
              LastTested = 0, LastPassed = 0, Error = []\<rparr>
   \<and> AddOrUpdate 5 6 (hp_tested StateFunctional SpeedAccepted) NewHashring 1
     = (hp_tested StateFunctional SpeedAccepted,
        \<lparr>hashnodes = [\<lparr>hashkey = 1, elem = 1, lastUpdate = 5\<rparr>]\<rparr>, Inr ResourceIsNew)"
  unfolding AddOrUpdate_empty
  by (simp add: TestResult_def Uid_def hp_tested_def ResourceIsNew_def ResourceIsGone_def)

lemma onbasca_entry_cases:
  assumes "TestResult hp r = Some rTest"
  shows "(bt_Error e \<noteq> [] \<longrightarrow>
            onbasca_entry th hp r e = Inr (hp(r := (hp r)\<lparr>Test := Some (rTest\<lparr>Ratio := None, Speed := SpeedUntested\<rparr>)\<rparr>)))
       \<and> (bt_Error e = [] \<and> bt_Functional e \<and> bt_Ratio e = Some 0 \<longrightarrow>
            onbasca_entry th hp r e = Inr (hp(r := (hp r)\<lparr>Test := Some (rTest\<lparr>Ratio := None, Speed := SpeedUntested\<rparr>)\<rparr>)))
       \<and> (bt_Error e = [] \<and> bt_Ratio e = Some x \<and> \<not> (bt_Functional e \<and> x = 0) \<longrightarrow>
            onbasca_entry th hp r e = Inr (hp(r := (hp r)\<lparr>Test := Some (rTest\<lparr>Speed := (if x < th then SpeedRejected else SpeedAccepted), Ratio := Some x\<rparr>)\<rparr>)))"
  using assms by (auto simp: onbasca_entry_def Let_def)

text \<open>
  Claim C4.  For an entry with a non-empty error, and for a functional entry with ratio 0,
  the code clears the ratio and sets the speed to Untested; for an entry with a number as
  ratio it compares and stores the ratio, as the claim says (\<open>onbasca_entry_cases\<close>).  For
  an entry with an empty error whose ratio is \<open>null\<close>, which the wire format allows, the
  claim has the speed set from the comparison; the code reads \<open>*bridgeTest.Ratio\<close> through
  the nil pointer and panics, whatever \<open>functional\<close> is.  The branch before it tests
  \<open>bridgeTest.Ratio != nil\<close>; the last branch does not.
\<close>

theorem onbasca_null_ratio_panics:
  "onbasca_entry threshold hp r
     \<lparr>bt_Functional = functional, bt_LastTested = lastTested, bt_Ratio = None, bt_Error = []\<rparr>
     = Inl NilDereference
   \<and> testOnbasca (3 / 4) hp3 [''vanilla 1.2.3.4:443'' \<mapsto> 1]
       (Some \<lparr>Bridges = [(''vanilla 1.2.3.4:443'',
                 \<lparr>bt_Functional = True, bt_LastTested = None, bt_Ratio = None, bt_Error = []\<rparr>)],
              Time = 0, resp_Error = []\<rparr>)
     = Inl NilDereference"
  by (simp add: onbasca_entry_def testOnbasca_def)

text \<open>
  Claim C10.  When the collection of the backend has no entry for the type of \<open>r\<close>,
  \<open>BackendResources.Add r\<close> changes neither the heap nor the backend (so no hashring), sends
  no diff and does not panic; it has no result to carry an error.  \<open>Collection.Add\<close> on the
  same collection returns the error "no resource type".
\<close>

theorem BackendResources_Add_unregistered_type:
  assumes "Collection ctx (Type hp r) = None"
  shows "br_Add rnd now later hp ctx r = (hp, ctx, [], None)
       \<and> c_Add rnd now hp (Collection ctx) r = (Collection ctx, Inr (Some ErrNoResourceType))"
  using assms by (simp add: br_Add_def c_Add_def)

theorem BackendResources_Add_unregistered_type_witness:
  "Collection ctx_obfs4 (Type hp3 1) = None
   \<and> br_Add (\<lambda>seed n. 0) 5 6 hp3 ctx_obfs4 1 = (hp3, ctx_obfs4, [], None)
   \<and> c_Add (\<lambda>seed n. 0) 5 hp3 (Collection ctx_obfs4) 1
       = (Collection ctx_obfs4, Inr (Some ErrNoResourceType))"
proof -
  have a: "Collection ctx_obfs4 (Type hp3 1) = None"
    by (simp add: ctx_obfs4_def Type_def hp3_def)
  show ?thesis using a BackendResources_Add_unregistered_type[OF a, of "\<lambda>seed n. 0" 5 6] by simp
qed











lemma SetLastPassed_fields:
  assumes "SetLastPassed hp r t = Inr hp'"
  shows "RelationIds (hp' x) = RelationIds (hp x)" "Distribution (hp' x) = Distribution (hp x)"
    "UniqueId (hp' x) = UniqueId (hp x)"
  using assms unfolding SetLastPassed_def
  by (auto split: ResourceImpl.splits option.splits)

lemma AddOrUpdate_heap_cases:
  "fst (AddOrUpdate now later hp h r) = hp
   \<or> SetLastPassed hp r later = Inr (fst (AddOrUpdate now later hp h r))"
  unfolding AddOrUpdate_def
  by (auto simp: Let_def split: prod.splits option.splits sum.splits)

lemma AddOrUpdate_heap_fields:
  "RelationIdentifiers (fst (AddOrUpdate now later hp h r)) x = RelationIdentifiers hp x"
  "Distributor (fst (AddOrUpdate now later hp h r)) x = Distributor hp x"
  using AddOrUpdate_heap_cases[of now later hp h r] SetLastPassed_fields[of hp r later]
  unfolding RelationIdentifiers_def Distributor_def by auto

lemma Add_keys_mono:
  "hashkey ` set (hashnodes h) \<subseteq> hashkey ` set (hashnodes (fst (Add now hp h r)))"
proof (cases "getIndex (hashnodes h) (Uid hp r)")
  case (Pair i e)
  show ?thesis
  proof (cases e)
    case None
    from getIndex_found[OF Pair[unfolded None]]
    have i: "0 \<le> i" "nat i < length (hashnodes h)" by simp_all
    have g: "getIndex (hashnodes h) (Uid hp r) = (int (nat i), None)" using Pair None i by simp
    have "map hashkey ((hashnodes h)[nat i := (hashnodes h ! nat i)\<lparr>lastUpdate := now\<rparr>]) = map hashkey (hashnodes h)"
      using i(2) by (simp add: map_update list_update_same_conv)
    then have "hashkey ` set ((hashnodes h)[nat i := (hashnodes h ! nat i)\<lparr>lastUpdate := now\<rparr>]) = hashkey ` set (hashnodes h)"
      by (metis list.set_map)
    then show ?thesis unfolding Add_found[OF g] by simp
  next
    case (Some e')
    show ?thesis unfolding Add_not_found[OF Pair[unfolded Some]]
      by (auto simp: set_sort_nodes)
  qed
qed

lemma AddOrUpdate_keys:
  "hashkey ` set (hashnodes h) \<subseteq> hashkey ` set (hashnodes (fst (snd (AddOrUpdate now later hp h r))))"
  "Uid hp r \<in> hashkey ` set (hashnodes (fst (snd (AddOrUpdate now later hp h r))))"
proof -
  show "hashkey ` set (hashnodes h) \<subseteq> hashkey ` set (hashnodes (fst (snd (AddOrUpdate now later hp h r))))"
  proof (cases "getIndex (hashnodes h) (Uid hp r)")
    case (Pair i e)
    show ?thesis
    proof (cases e)
      case None
      from getIndex_found[OF Pair[unfolded None]]
      have i: "0 \<le> i" "nat i < length (hashnodes h)" by simp_all
      define n where "n = (hashnodes h ! nat i)\<lparr>lastUpdate := now,
              elem := (if Oid hp (elem (hashnodes h ! nat i)) \<noteq> Oid hp r then r else elem (hashnodes h ! nat i))\<rparr>"
      have "map hashkey ((hashnodes h)[nat i := n]) = map hashkey (hashnodes h)"
        using i(2) by (simp add: map_update list_update_same_conv n_def)
      then have "hashkey ` set ((hashnodes h)[nat i := n]) = hashkey ` set (hashnodes h)"
        by (metis list.set_map)
      then show ?thesis unfolding AddOrUpdate_ring Pair None n_def by simp
    next
      case (Some e')
      show ?thesis unfolding AddOrUpdate_ring Pair Some by (auto simp: set_sort_nodes)
    qed
  qed
  show "Uid hp r \<in> hashkey ` set (hashnodes (fst (snd (AddOrUpdate now later hp h r))))"
  proof (cases "getIndex (hashnodes h) (Uid hp r)")
    case (Pair i e)
    show ?thesis
    proof (cases e)
      case None
      from getIndex_found[OF Pair[unfolded None]]
      have i: "nat i < length (hashnodes h)" "hashkey (hashnodes h ! nat i) = Uid hp r" by simp_all
      then have "Uid hp r \<in> hashkey ` set (hashnodes h)" by (metis imageI nth_mem)
      then show ?thesis
        using \<open>hashkey ` set (hashnodes h) \<subseteq> hashkey ` set (hashnodes (fst (snd (AddOrUpdate now later hp h r))))\<close>
        by blast
    next
      case (Some e')
      show ?thesis unfolding AddOrUpdate_ring Pair Some
        by (simp add: set_sort_nodes NewHashnode_def)
    qed
  qed
qed

lemma record_relations:
  "foldl (\<lambda>rel identifier. rel(identifier \<mapsto> name)) rel ids k
     = (if k \<in> set ids then Some name else rel k)"
  by (induction ids arbitrary: rel) auto

lemma p_addRelationIdentifiers_facts:
  "relations (p_addRelationIdentifiers hp p r name) k
     = (if k \<in> set (RelationIdentifiers hp r) then Some name else relations p k)"
  "partitions (p_addRelationIdentifiers hp p r name) = partitions p"
  "stencil (p_addRelationIdentifiers hp p r name) = stencil p"
  by (simp_all add: p_addRelationIdentifiers_def record_relations)

lemma pwd_addRelationIdentifiers_facts:
  "relations (pwd_addRelationIdentifiers hp p r name) k
     = (if name \<noteq> ''none'' \<and> k \<in> set (RelationIdentifiers hp r) then Some name else relations p k)"
  "partitions (pwd_addRelationIdentifiers hp p r name) = partitions p"
  "stencil (pwd_addRelationIdentifiers hp p r name) = stencil p"
  by (simp_all add: pwd_addRelationIdentifiers_def p_addRelationIdentifiers_facts)

lemma on_partition_Add_facts:
  "relations (fst (on_partition_Add now hp p name r)) = relations p"
  "stencil (fst (on_partition_Add now hp p name r)) = stencil p"
  "(map_of (partitions (fst (on_partition_Add now hp p name r))) n = None)
     = (map_of (partitions p) n = None)"
  "n \<noteq> name \<Longrightarrow> map_of (partitions (fst (on_partition_Add now hp p name r))) n = map_of (partitions p) n"
  "map_of (partitions p) name = Some h \<Longrightarrow>
     map_of (partitions (fst (on_partition_Add now hp p name r))) name = Some (fst (Add now hp h r))"
  unfolding on_partition_Add_def
  by (auto simp: update_conv' split: option.splits prod.splits)

lemma on_partition_AddOrUpdate_facts:
  "relations (fst (snd (on_partition_AddOrUpdate now later hp p name r))) = relations p"
  "stencil (fst (snd (on_partition_AddOrUpdate now later hp p name r))) = stencil p"
  "(map_of (partitions (fst (snd (on_partition_AddOrUpdate now later hp p name r)))) n = None)
     = (map_of (partitions p) n = None)"
  "n \<noteq> name \<Longrightarrow> map_of (partitions (fst (snd (on_partition_AddOrUpdate now later hp p name r)))) n
       = map_of (partitions p) n"
  "map_of (partitions p) name = Some h \<Longrightarrow>
     map_of (partitions (fst (snd (on_partition_AddOrUpdate now later hp p name r)))) name
       = Some (fst (snd (AddOrUpdate now later hp h r)))"
  "map_of (partitions p) name = Some h \<Longrightarrow>
     fst (on_partition_AddOrUpdate now later hp p name r) = fst (AddOrUpdate now later hp h r)"
  "map_of (partitions p) name = None \<Longrightarrow>
     fst (on_partition_AddOrUpdate now later hp p name r) = hp"
  unfolding on_partition_AddOrUpdate_def
  by (auto simp: update_conv' split: option.splits prod.splits)

lemma on_partition_AddOrUpdate_heap_fields:
  "RelationIdentifiers (fst (on_partition_AddOrUpdate now later hp p name r)) x = RelationIdentifiers hp x"
  "Distributor (fst (on_partition_AddOrUpdate now later hp p name r)) x = Distributor hp x"
  "Uid (fst (on_partition_AddOrUpdate now later hp p name r)) x = Uid hp x"
  by (cases "map_of (partitions p) name";
      simp add: on_partition_AddOrUpdate_facts AddOrUpdate_heap_fields AddOrUpdate_heap_Uid)+

text \<open>What an insertion through \<open>pwd_put\<close> leaves behind.\<close>

lemma pwd_put_cases:
  assumes "pwd_put u rnd now later hp p r = (hp', p')"
  shows "u \<Longrightarrow> hp' = fst (on_partition_AddOrUpdate now later hp
                  (pwd_addRelationIdentifiers hp p r (pwd_getPartitionName rnd hp p r))
                  (pwd_getPartitionName rnd hp p r) r)"
    and "u \<Longrightarrow> p' = fst (snd (on_partition_AddOrUpdate now later hp
                  (pwd_addRelationIdentifiers hp p r (pwd_getPartitionName rnd hp p r))
                  (pwd_getPartitionName rnd hp p r) r))"
    and "\<not> u \<Longrightarrow> hp' = hp"
    and "\<not> u \<Longrightarrow> p' = fst (on_partition_Add now hp
                  (pwd_addRelationIdentifiers hp p r (pwd_getPartitionName rnd hp p r))
                  (pwd_getPartitionName rnd hp p r) r)"
  using assms
  by (auto simp: pwd_put_def pwd_AddOrUpdate_def pwd_Add_def Let_def split: prod.splits)

lemma pwd_put_relations:
  assumes "pwd_put u rnd now later hp p r = (hp', p')"
  shows "relations p' k
           = (if pwd_getPartitionName rnd hp p r \<noteq> ''none'' \<and> k \<in> set (RelationIdentifiers hp r)
              then Some (pwd_getPartitionName rnd hp p r) else relations p k)"
  by (cases u)
     (simp_all add: pwd_put_cases[OF assms] on_partition_AddOrUpdate_facts on_partition_Add_facts
        pwd_addRelationIdentifiers_facts)

lemma pwd_put_stencil:
  assumes "pwd_put u rnd now later hp p r = (hp', p')"
  shows "stencil p' = stencil p"
  by (cases u)
     (simp_all add: pwd_put_cases[OF assms] on_partition_AddOrUpdate_facts on_partition_Add_facts
        pwd_addRelationIdentifiers_facts)

lemma pwd_put_partition_names:
  assumes "pwd_put u rnd now later hp p r = (hp', p')"
  shows "(map_of (partitions p') n = None) = (map_of (partitions p) n = None)"
  by (cases u)
     (simp_all add: pwd_put_cases[OF assms] on_partition_AddOrUpdate_facts on_partition_Add_facts
        pwd_addRelationIdentifiers_facts)

lemma pwd_put_heap_fields:
  assumes "pwd_put u rnd now later hp p r = (hp', p')"
  shows "RelationIdentifiers hp' x = RelationIdentifiers hp x"
    and "Distributor hp' x = Distributor hp x"
    and "Uid hp' x = Uid hp x"
  by (cases u; simp add: pwd_put_cases[OF assms] on_partition_AddOrUpdate_heap_fields)+

lemma pwd_put_ring:
  assumes "pwd_put u rnd now later hp p r = (hp', p')"
    and "map_of (partitions p) (pwd_getPartitionName rnd hp p r) = Some h"
  shows "\<exists>h'. map_of (partitions p') (pwd_getPartitionName rnd hp p r) = Some h'
             \<and> hashkey ` set (hashnodes h) \<subseteq> hashkey ` set (hashnodes h')
             \<and> Uid hp r \<in> hashkey ` set (hashnodes h')"
proof -
  define name where "name = pwd_getPartitionName rnd hp p r"
  define q where "q = pwd_addRelationIdentifiers hp p r name"
  have q: "map_of (partitions q) name = Some h"
    using assms(2) by (simp add: q_def pwd_addRelationIdentifiers_facts name_def)
  show ?thesis
  proof (cases u)
    case True
    from on_partition_AddOrUpdate_facts(5)[OF q]
    have "map_of (partitions p') name = Some (fst (snd (AddOrUpdate now later hp h r)))"
      using pwd_put_cases(2)[OF assms(1) True] by (simp add: q_def name_def)
    then show ?thesis unfolding name_def using AddOrUpdate_keys[where h=h and now=now and later=later and hp=hp and r=r] by blast
  next
    case False
    from on_partition_Add_facts(5)[OF q]
    have "map_of (partitions p') name = Some (fst (Add now hp h r))"
      using pwd_put_cases(4)[OF assms(1) False] by (simp add: q_def name_def)
    then show ?thesis unfolding name_def
      using Add_keys_mono[where h=h and now=now and hp=hp and r=r] Add_key_present[where h=h and now=now and hp=hp and r=r] by blast
  qed
qed

lemma relation_fold:
  assumes "\<forall>k\<in>set ids. (case relations p k of None \<Rightarrow> True
                              | Some nm \<Rightarrow> nm = n \<or> map_of (partitions p) nm = None)"
  shows "foldl (\<lambda>partitionName id.
                     case relations p id of
                       None \<Rightarrow> partitionName
                     | Some name \<Rightarrow>
                         (case map_of (partitions p) name of
                            None \<Rightarrow> partitionName
                          | Some h \<Rightarrow> name)) acc ids
         = (if \<exists>k\<in>set ids. relations p k = Some n \<and> map_of (partitions p) n \<noteq> None then n else acc)"
  using assms
proof (induction ids rule: rev_induct)
  case Nil
  show ?case by simp
next
  case (snoc k ids)
  have ih: "foldl (\<lambda>partitionName id.
                     case relations p id of
                       None \<Rightarrow> partitionName
                     | Some name \<Rightarrow>
                         (case map_of (partitions p) name of
                            None \<Rightarrow> partitionName
                          | Some h \<Rightarrow> name)) acc ids
         = (if \<exists>k\<in>set ids. relations p k = Some n \<and> map_of (partitions p) n \<noteq> None then n else acc)"
    using snoc by simp
  have ok: "case relations p k of None \<Rightarrow> True
                              | Some nm \<Rightarrow> nm = n \<or> map_of (partitions p) nm = None"
    using snoc.prems by simp
  show ?case
  proof (cases "relations p k")
    case None
    then show ?thesis unfolding foldl_append ih by simp
  next
    case (Some nm)
    show ?thesis
    proof (cases "map_of (partitions p) nm")
      case None
      then show ?thesis using Some unfolding foldl_append ih by auto
    next
      case (Some h)
      with ok \<open>relations p k = Some nm\<close> have "nm = n" by simp
      then show ?thesis using Some \<open>relations p k = Some nm\<close> unfolding foldl_append ih by auto
    qed
  qed
qed

lemma related_partition_name:
  assumes ok: "\<forall>k\<in>set (RelationIdentifiers hp r). (case relations p k of None \<Rightarrow> True
                              | Some nm \<Rightarrow> nm = n \<or> map_of (partitions p) nm = None)"
    and hit: "x \<in> set (RelationIdentifiers hp r)" "relations p x = Some n" "map_of (partitions p) n \<noteq> None"
    and n: "n \<noteq> []"
  shows "p_getPartitionName rnd hp p r = n"
proof -
  have "\<exists>k\<in>set (RelationIdentifiers hp r). relations p k = Some n \<and> map_of (partitions p) n \<noteq> None"
    using hit by blast
  then show ?thesis
    unfolding p_getPartitionName_def relation_fold[OF ok] Let_def using n by simp
qed

lemma pwd_getPartitionName_undeclared:
  "Distributor hp r = [] \<Longrightarrow> pwd_getPartitionName rnd hp p r = p_getPartitionName rnd hp p r"
  by (simp add: pwd_getPartitionName_def)

text \<open>
  Claim C6, amended.  Insert \<open>r1\<close> and then \<open>r2\<close> into a partitioned hashring of the
  backend, each by \<open>Add\<close> or by \<open>AddOrUpdate\<close>, and let \<open>n1\<close> be the partition chosen for
  \<open>r1\<close>.  If \<open>n1\<close> is not \<open>none\<close>, the insertion of \<open>r1\<close> records every relation identifier
  of \<open>r1\<close> in the relations table under \<open>n1\<close>.  If moreover neither resource declares a
  distributor, they share a relation identifier, \<open>n1\<close> is a non-empty name that has a
  hashring, and every relation identifier of \<open>r2\<close> that is not one of \<open>r1\<close> is unrecorded,
  recorded under \<open>n1\<close> or recorded under a name that has no hashring, then the partition
  chosen for \<open>r2\<close> is \<open>n1\<close> whatever the UIDs are, the hashring of \<open>n1\<close> holds both UIDs
  afterwards, and every relation identifier of both resources is recorded under \<open>n1\<close>.
  The partition is chosen, the relations are written and the node is stored before
  \<open>AddOrUpdate\<close> reads the test result, so this describes the memory also where that read
  panics.
\<close>

theorem relation_colocation:
  assumes put1: "pwd_put u1 rnd now1 later1 hp p r1 = (hp1, p1)"
    and put2: "pwd_put u2 rnd now2 later2 hp1 p1 r2 = (hp2, p2)"
    and n1: "n1 = pwd_getPartitionName rnd hp p r1"
  shows "(n1 \<noteq> ''none'' \<longrightarrow> (\<forall>k\<in>set (RelationIdentifiers hp r1). relations p1 k = Some n1))
       \<and> (Distributor hp r1 = [] \<and> Distributor hp r2 = []
          \<and> set (RelationIdentifiers hp r1) \<inter> set (RelationIdentifiers hp r2) \<noteq> {}
          \<and> n1 \<noteq> ''none'' \<and> n1 \<noteq> [] \<and> map_of (partitions p) n1 \<noteq> None
          \<and> (\<forall>k\<in>set (RelationIdentifiers hp r2) - set (RelationIdentifiers hp r1).
                case relations p k of None \<Rightarrow> True
                | Some nm \<Rightarrow> nm = n1 \<or> map_of (partitions p) nm = None)
          \<longrightarrow> pwd_getPartitionName rnd hp1 p1 r2 = n1
            \<and> p_getPartitionName rnd hp1 p1 r2 = n1
            \<and> (\<exists>h2. map_of (partitions p2) n1 = Some h2
                  \<and> Uid hp r1 \<in> hashkey ` set (hashnodes h2)
                  \<and> Uid hp r2 \<in> hashkey ` set (hashnodes h2))
            \<and> (\<forall>k\<in>set (RelationIdentifiers hp r1) \<union> set (RelationIdentifiers hp r2).
                  relations p2 k = Some n1))"
proof (intro conjI impI)
  assume "n1 \<noteq> ''none''"
  then show "\<forall>k\<in>set (RelationIdentifiers hp r1). relations p1 k = Some n1"
    by (simp add: pwd_put_relations[OF put1] n1)
next
  assume a: "Distributor hp r1 = [] \<and> Distributor hp r2 = []
          \<and> set (RelationIdentifiers hp r1) \<inter> set (RelationIdentifiers hp r2) \<noteq> {}
          \<and> n1 \<noteq> ''none'' \<and> n1 \<noteq> [] \<and> map_of (partitions p) n1 \<noteq> None
          \<and> (\<forall>k\<in>set (RelationIdentifiers hp r2) - set (RelationIdentifiers hp r1).
                case relations p k of None \<Rightarrow> True
                | Some nm \<Rightarrow> nm = n1 \<or> map_of (partitions p) nm = None)"
  then have d2: "Distributor hp r2 = []" and none: "n1 \<noteq> ''none''" and ne: "n1 \<noteq> []"
    and part: "map_of (partitions p) n1 \<noteq> None"
    and others: "\<forall>k\<in>set (RelationIdentifiers hp r2) - set (RelationIdentifiers hp r1).
                case relations p k of None \<Rightarrow> True
                | Some nm \<Rightarrow> nm = n1 \<or> map_of (partitions p) nm = None"
    by blast+
  from a obtain x where x: "x \<in> set (RelationIdentifiers hp r1)" "x \<in> set (RelationIdentifiers hp r2)"
    by blast
  have rel1: "relations p1 k = (if k \<in> set (RelationIdentifiers hp r1) then Some n1 else relations p k)" for k
    using none by (simp add: pwd_put_relations[OF put1] n1)
  have names1: "(map_of (partitions p1) n = None) = (map_of (partitions p) n = None)" for n
    by (rule pwd_put_partition_names[OF put1])
  have ids2: "RelationIdentifiers hp1 r2 = RelationIdentifiers hp r2"
    and d2': "Distributor hp1 r2 = []"
    and uid2: "Uid hp1 r2 = Uid hp r2"
    using pwd_put_heap_fields[OF put1] d2 by simp_all
  have ok: "\<forall>k\<in>set (RelationIdentifiers hp1 r2). (case relations p1 k of None \<Rightarrow> True
                              | Some nm \<Rightarrow> nm = n1 \<or> map_of (partitions p1) nm = None)"
  proof
    fix k assume k: "k \<in> set (RelationIdentifiers hp1 r2)"
    show "case relations p1 k of None \<Rightarrow> True
                              | Some nm \<Rightarrow> nm = n1 \<or> map_of (partitions p1) nm = None"
    proof (cases "k \<in> set (RelationIdentifiers hp r1)")
      case True
      then show ?thesis by (simp add: rel1)
    next
      case False
      with k have "k \<in> set (RelationIdentifiers hp r2) - set (RelationIdentifiers hp r1)"
        by (simp add: ids2)
      with others have "case relations p k of None \<Rightarrow> True
                | Some nm \<Rightarrow> nm = n1 \<or> map_of (partitions p) nm = None" by blast
      then show ?thesis using False by (simp add: rel1 names1 split: option.splits)
    qed
  qed
  have hit: "x \<in> set (RelationIdentifiers hp1 r2)" "relations p1 x = Some n1"
    "map_of (partitions p1) n1 \<noteq> None"
    using x part by (simp_all add: ids2 rel1 names1)
  show pn: "p_getPartitionName rnd hp1 p1 r2 = n1"
    by (rule related_partition_name[OF ok hit ne])
  show pwdn: "pwd_getPartitionName rnd hp1 p1 r2 = n1"
    using pn by (simp add: pwd_getPartitionName_undeclared[OF d2'])
  show "\<forall>k\<in>set (RelationIdentifiers hp r1) \<union> set (RelationIdentifiers hp r2).
                  relations p2 k = Some n1"
    using none by (auto simp: pwd_put_relations[OF put2] pwdn ids2 rel1)
  from part obtain h where h: "map_of (partitions p) (pwd_getPartitionName rnd hp p r1) = Some h"
    unfolding n1 by blast
  from pwd_put_ring[OF put1 h] obtain h1 where h1: "map_of (partitions p1) n1 = Some h1"
    "Uid hp r1 \<in> hashkey ` set (hashnodes h1)" unfolding n1 by blast
  from h1(1) have h1': "map_of (partitions p1) (pwd_getPartitionName rnd hp1 p1 r2) = Some h1"
    unfolding pwdn .
  from pwd_put_ring[OF put2 h1'] obtain h2 where h2: "map_of (partitions p2) n1 = Some h2"
    "hashkey ` set (hashnodes h1) \<subseteq> hashkey ` set (hashnodes h2)"
    "Uid hp1 r2 \<in> hashkey ` set (hashnodes h2)" unfolding pwdn by blast
  show "\<exists>h2. map_of (partitions p2) n1 = Some h2
                  \<and> Uid hp r1 \<in> hashkey ` set (hashnodes h2)
                  \<and> Uid hp r2 \<in> hashkey ` set (hashnodes h2)"
    using h2 h1(2) unfolding uid2 by blast
qed

text \<open>
  The resources 1 and 2 on the empty \<open>backend_half\<close>: the stencil sends the resource 1 to
  \<open>moat\<close> (the generator seeded with 1 draws 81), and the resource 2 follows it there.
\<close>

theorem relation_colocation_witness:
  "pwd_getPartitionName draw_after_seed_1 hp_related backend_half 1 = ''moat''
   \<and> Distributor hp_related 1 = [] \<and> Distributor hp_related 2 = []
   \<and> RelationIdentifiers hp_related 1 = [''fingerprint1'', ''address1'']
   \<and> RelationIdentifiers hp_related 2 = [''fingerprint1'', ''address2'']
   \<and> relations backend_half ''address2'' = None
   \<and> map_of (partitions backend_half) ''moat'' = Some NewHashring
   \<and> relations (snd fresh_then_1) ''fingerprint1'' = Some ''moat''
   \<and> relations (snd fresh_then_1) ''address1'' = Some ''moat''
   \<and> pwd_getPartitionName draw_after_seed_1 (fst fresh_then_1) (snd fresh_then_1) 2 = ''moat''
   \<and> (\<exists>h2. map_of (partitions (snd fresh_then_1_2)) ''moat'' = Some h2
          \<and> Uid hp_related 1 \<in> hashkey ` set (hashnodes h2)
          \<and> Uid hp_related 2 \<in> hashkey ` set (hashnodes h2))
   \<and> relations (snd fresh_then_1_2) ''fingerprint1'' = Some ''moat''
   \<and> relations (snd fresh_then_1_2) ''address1'' = Some ''moat''
   \<and> relations (snd fresh_then_1_2) ''address2'' = Some ''moat''"
proof -
  have put1: "pwd_put False draw_after_seed_1 3 4 hp_related backend_half 1
                = (fst fresh_then_1, snd fresh_then_1)"
    by (simp add: fresh_then_1_def)
  have put2: "pwd_put True draw_after_seed_1 5 6 (fst fresh_then_1) (snd fresh_then_1) 2
                = (fst fresh_then_1_2, snd fresh_then_1_2)"
    by (simp add: fresh_then_1_2_def)
  have n1: "''moat'' = pwd_getPartitionName draw_after_seed_1 hp_related backend_half 1"
    by code_simp
  have d1: "Distributor hp_related 1 = []" and d2: "Distributor hp_related 2 = []"
    by (simp_all add: Distributor_def hp_related_def NewDummy_def)
  have i1: "RelationIdentifiers hp_related 1 = [''fingerprint1'', ''address1'']"
    and i2: "RelationIdentifiers hp_related 2 = [''fingerprint1'', ''address2'']"
    by (simp_all add: RelationIdentifiers_def hp_related_def NewDummy_def)
  have rel: "relations backend_half ''address2'' = None"
    by (simp add: backend_half_def newPartitionedWithDistributors_def newPartitionedHashring_def)
  have part: "map_of (partitions backend_half) ''moat'' = Some NewHashring"
    by (simp add: backend_half_def newPartitionedWithDistributors_def newPartitionedHashring_def
          props_half_def)
  note t = relation_colocation[OF put1 put2 n1]
  have hyp: "Distributor hp_related 1 = [] \<and> Distributor hp_related 2 = []
          \<and> set (RelationIdentifiers hp_related 1) \<inter> set (RelationIdentifiers hp_related 2) \<noteq> {}
          \<and> ''moat'' \<noteq> ''none'' \<and> ''moat'' \<noteq> [] \<and> map_of (partitions backend_half) ''moat'' \<noteq> None
          \<and> (\<forall>k\<in>set (RelationIdentifiers hp_related 2) - set (RelationIdentifiers hp_related 1).
                case relations backend_half k of None \<Rightarrow> True
                | Some nm \<Rightarrow> nm = ''moat'' \<or> map_of (partitions backend_half) nm = None)"
    unfolding i1 i2 d1 d2 part using rel by simp
  from t have r1: "\<forall>k\<in>set (RelationIdentifiers hp_related 1). relations (snd fresh_then_1) k = Some ''moat''"
    by simp
  from t hyp have
    c1: "pwd_getPartitionName draw_after_seed_1 (fst fresh_then_1) (snd fresh_then_1) 2 = ''moat''"
    and c2: "\<exists>h2. map_of (partitions (snd fresh_then_1_2)) ''moat'' = Some h2
          \<and> Uid hp_related 1 \<in> hashkey ` set (hashnodes h2)
          \<and> Uid hp_related 2 \<in> hashkey ` set (hashnodes h2)"
    and c3: "\<forall>k\<in>set (RelationIdentifiers hp_related 1) \<union> set (RelationIdentifiers hp_related 2).
                  relations (snd fresh_then_1_2) k = Some ''moat''"
    by blast+
  from r1 have r1a: "relations (snd fresh_then_1) ''fingerprint1'' = Some ''moat''"
    and r1b: "relations (snd fresh_then_1) ''address1'' = Some ''moat''"
    unfolding i1 by simp_all
  from c3 have c3a: "relations (snd fresh_then_1_2) ''fingerprint1'' = Some ''moat''"
    and c3b: "relations (snd fresh_then_1_2) ''address1'' = Some ''moat''"
    and c3c: "relations (snd fresh_then_1_2) ''address2'' = Some ''moat''"
    unfolding i1 i2 by simp_all
  show ?thesis
    by (intro conjI n1[symmetric] d1 d2 i1 i2 rel part r1a r1b c1 c2 c3a c3b c3c)
qed

text \<open>
  The claim C6 as stated fails, because the last relation identifier that is recorded under
  an existing partition decides.  On \<open>backend_declared\<close> the fingerprint of the resources 1
  and 2 is recorded under \<open>https\<close> and the address of the resource 2 under \<open>moat\<close>; neither
  declares a distributor, they share the fingerprint, and \<open>Add\<close> puts the resource 1 into
  \<open>https\<close> and the resource 2 into \<open>moat\<close>.  The generator is not consulted.
\<close>

theorem related_resources_split_counterexample:
  "Distributor hp_related 1 = [] \<and> Distributor hp_related 2 = []
   \<and> RelationIdentifiers hp_related 1 = [''fingerprint1'', ''address1'']
   \<and> RelationIdentifiers hp_related 2 = [''fingerprint1'', ''address2'']
   \<and> snd declared_then_1_2 = Inr None
   \<and> map_of (partitions (fst declared_then_1_2)) ''https''
        = Some \<lparr>hashnodes = [\<lparr>hashkey = 1, elem = 1, lastUpdate = 1\<rparr>,
                              \<lparr>hashkey = 10, elem = 10, lastUpdate = 0\<rparr>]\<rparr>
   \<and> map_of (partitions (fst declared_then_1_2)) ''moat''
        = Some \<lparr>hashnodes = [\<lparr>hashkey = 2, elem = 2, lastUpdate = 2\<rparr>,
                              \<lparr>hashkey = 11, elem = 11, lastUpdate = 0\<rparr>]\<rparr>"
  by code_simp

end
